theory Spec2Isabelle
  imports Complex_Main "HOL-Library.Word" "HOL-Library.Log_Nat"
begin

section \<open>MathLib: the cmake-library example\<close>

text \<open>
  The example library of \<^verbatim>\<open>examples/cmake-library\<close>: \<^verbatim>\<open>src/math_ops.c\<close> defines
  \<^verbatim>\<open>add\<close>, \<^verbatim>\<open>multiply\<close> and \<^verbatim>\<open>divide_safe\<close>; \<^verbatim>\<open>test/test_math.c\<close> is a driver that calls
  them and prints the results.
\<close>

subsection \<open>C integers\<close>

text \<open>
  A C \<^verbatim>\<open>int\<close> is a 32-bit two's complement integer: a \<open>32 word\<close>, read as a signed
  number by \<open>sint\<close>. ISO C leaves signed overflow undefined; the model takes what the
  representation does natively, the wrap-around modulo \<open>2 ^ 32\<close> of the word operations.
\<close>

type_synonym c_int = "32 word"

subsection \<open>C doubles\<close>

text \<open>
  A C \<^verbatim>\<open>double\<close> is an IEEE 754 binary64 number (ISO C Annex F): 64 bits, of which bit 63
  is the sign, bits 62 to 52 the biased exponent and bits 51 to 0 the fraction. The
  operators \<^verbatim>\<open>==\<close> and \<^verbatim>\<open>/\<close> are the comparison and the division of IEEE 754, the
  latter in the default rounding mode (to nearest, ties to even) and evaluated in double
  precision. Neither the sign nor the payload of a NaN result is fixed by ISO C; the
  model returns the positive quiet NaN with an empty payload, and no theorem below
  depends on that choice beyond the result being a NaN.
\<close>

type_synonym c_double = "64 word"

definition sign_bit :: "c_double \<Rightarrow> bool" where
  "sign_bit x = bit x 63"

definition biased_exp :: "c_double \<Rightarrow> nat" where
  "biased_exp x = unat (take_bit 11 (drop_bit 52 x))"

definition fraction :: "c_double \<Rightarrow> nat" where
  "fraction x = unat (take_bit 52 x)"

definition is_nan :: "c_double \<Rightarrow> bool" where
  "is_nan x = (biased_exp x = 2047 \<and> fraction x \<noteq> 0)"

definition is_infinity :: "c_double \<Rightarrow> bool" where
  "is_infinity x = (biased_exp x = 2047 \<and> fraction x = 0)"

definition is_zero :: "c_double \<Rightarrow> bool" where
  "is_zero x = (biased_exp x = 0 \<and> fraction x = 0)"

definition is_finite :: "c_double \<Rightarrow> bool" where
  "is_finite x = (\<not> is_nan x \<and> \<not> is_infinity x)"

text \<open>
  A double unpacked: a NaN, an infinity with its sign, or a finite number with its sign,
  its integer significand \<open>m\<close> and its exponent \<open>q\<close>, of magnitude \<open>m * 2 ^ q\<close>.
  Subnormal numbers and the zeros have the biased exponent 0 and no hidden bit.
\<close>

datatype unpacked = NaN | Infinite bool | Finite bool int int

definition unpack :: "c_double \<Rightarrow> unpacked" where
  "unpack x =
    (if biased_exp x = 2047 then (if fraction x = 0 then Infinite (sign_bit x) else NaN)
     else if biased_exp x = 0 then Finite (sign_bit x) (int (fraction x)) (- 1074)
     else Finite (sign_bit x) (2 ^ 52 + int (fraction x)) (int (biased_exp x) - 1075))"

definition fin_val :: "bool \<Rightarrow> int \<Rightarrow> int \<Rightarrow> rat" where
  "fin_val s m q = (if s then - 1 else 1) * of_int m * 2 powi q"

text \<open>The rational number a finite double stands for.\<close>

definition valof :: "c_double \<Rightarrow> rat" where
  "valof x = (case unpack x of Finite s m q \<Rightarrow> fin_val s m q | _ \<Rightarrow> 0)"

text \<open>
  The operator \<^verbatim>\<open>==\<close>: a NaN is equal to nothing, itself included; an infinity is equal
  to the infinity of its sign; finite numbers are equal when their values are, so that
  the two zeros are equal.
\<close>

fun feq_unpacked :: "unpacked \<Rightarrow> unpacked \<Rightarrow> bool" where
  "feq_unpacked (Finite s m q) (Finite t n r) = (fin_val s m q = fin_val t n r)"
| "feq_unpacked (Infinite s) (Infinite t) = (s = t)"
| "feq_unpacked _ _ = False"

definition feq :: "c_double \<Rightarrow> c_double \<Rightarrow> bool" where
  "feq a b = feq_unpacked (unpack a) (unpack b)"

text \<open>
  The operator \<^verbatim>\<open>/\<close>. For finite operands other than zero, of magnitudes
  \<open>ma * 2 ^ qa\<close> and \<open>mb * 2 ^ qb\<close>, \<open>fl\<close> is the integer part of the binary logarithm
  of \<open>ma / mb\<close>, so that the exact quotient is at least \<open>2 ^ (fl + qa - qb)\<close> and less
  than twice that. The result has the exponent \<open>q\<close> that leaves 53 bits to its
  significand, or the least exponent, that of the subnormal numbers; its significand is
  the quotient scaled by \<open>2 ^ - q\<close> and rounded to the nearest integer, a tie to the
  even one. Adding the significand to the exponent field carries a significand of
  \<open>2 ^ 53\<close> into the exponent, and a result at or beyond the encoding of infinity has
  overflowed. That this is the division of IEEE 754 is proved below.
\<close>

definition shl :: "int \<Rightarrow> int \<Rightarrow> int" where
  "shl n k = (if 0 \<le> k then n * 2 ^ nat k else n)"

definition rne_div :: "int \<Rightarrow> int \<Rightarrow> int" where
  "rne_div n d =
    (let q = n div d; r = n mod d
     in if 2 * r < d \<or> (2 * r = d \<and> even q) then q else q + 1)"

definition quotient_bits :: "int \<Rightarrow> int \<Rightarrow> int \<Rightarrow> int \<Rightarrow> int" where
  "quotient_bits ma qa mb qb =
    (let d = bitlen ma - bitlen mb;
         fl = (if shl mb d \<le> shl ma (- d) then d else d - 1);
         q = max (fl + qa - qb - 52) (- 1074);
         k = qa - qb - q
     in (q + 1074) * 2 ^ 52 + rne_div (shl ma k) (shl mb (- k)))"

definition infinity :: "bool \<Rightarrow> c_double" where
  "infinity s = (if s then 0xFFF0000000000000 else 0x7FF0000000000000)"

definition zero :: "bool \<Rightarrow> c_double" where
  "zero s = (if s then 0x8000000000000000 else 0)"

definition quiet_nan :: c_double where
  "quiet_nan = 0x7FF8000000000000"

definition pack :: "bool \<Rightarrow> int \<Rightarrow> c_double" where
  "pack s n = (if 0x7FF0000000000000 \<le> n then infinity s else zero s + word_of_int n)"

fun fdiv_unpacked :: "unpacked \<Rightarrow> unpacked \<Rightarrow> c_double" where
  "fdiv_unpacked NaN y = quiet_nan"
| "fdiv_unpacked x NaN = quiet_nan"
| "fdiv_unpacked (Infinite s) (Infinite t) = quiet_nan"
| "fdiv_unpacked (Infinite s) (Finite t mb qb) = infinity (s \<noteq> t)"
| "fdiv_unpacked (Finite s ma qa) (Infinite t) = zero (s \<noteq> t)"
| "fdiv_unpacked (Finite s ma qa) (Finite t mb qb) =
    (if mb = 0 then (if ma = 0 then quiet_nan else infinity (s \<noteq> t))
     else if ma = 0 then zero (s \<noteq> t)
     else pack (s \<noteq> t) (quotient_bits ma qa mb qb))"

definition fdiv :: "c_double \<Rightarrow> c_double \<Rightarrow> c_double" where
  "fdiv a b = fdiv_unpacked (unpack a) (unpack b)"

subsection \<open>Program state\<close>

text \<open>
  The program is first translated in the default floating-point environment, where the
  only state it has outside its local variables is the standard output stream, kept as
  the sequence of the calls of \<^verbatim>\<open>printf\<close>, each with its format string and its
  arguments. Every C function is translated to a function from the state before the
  call to its return value and the state after it. The floating-point environment is
  added to the state further below.
\<close>

datatype printf_arg = IntArg c_int | DoubleArg c_double

record world =
  stdout :: "(string \<times> printf_arg list) list"

type_synonym 'a prog = "world \<Rightarrow> 'a \<times> world"

definition printf :: "string \<Rightarrow> printf_arg list \<Rightarrow> world \<Rightarrow> world" where
  "printf fmt args w = w\<lparr>stdout := stdout w @ [(fmt, args)]\<rparr>"

subsection \<open>math\_ops.c\<close>

text \<open>\<^verbatim>\<open>int add(int a, int b) { return a + b; }\<close>\<close>

definition add :: "c_int \<Rightarrow> c_int \<Rightarrow> c_int prog" where
  "add a b w = (a + b, w)"

text \<open>\<^verbatim>\<open>int multiply(int a, int b) { return a * b; }\<close>\<close>

definition multiply :: "c_int \<Rightarrow> c_int \<Rightarrow> c_int prog" where
  "multiply a b w = (a * b, w)"

text \<open>
  \<^verbatim>\<open>double divide_safe(double a, double b) { if (b == 0.0) { return 0.0; } return a / b; }\<close>

  The literal \<^verbatim>\<open>0.0\<close> is the positive zero, all of whose bits are 0.
\<close>

definition divide_safe :: "c_double \<Rightarrow> c_double \<Rightarrow> c_double prog" where
  "divide_safe a b w = (if feq b 0 then (0, w) else (fdiv a b, w))"

subsection \<open>test\_math.c\<close>

text \<open>
  The driver sees the three functions through their declarations in \<^verbatim>\<open>math_ops.h\<close>;
  \<open>test_main\<close> is its \<^verbatim>\<open>main\<close> with the functions it is linked with as parameters, and
  \<open>main\<close> is the program linked with \<^verbatim>\<open>math_ops.c\<close>. The literals \<^verbatim>\<open>10.0\<close>, \<^verbatim>\<open>2.0\<close> and
  \<^verbatim>\<open>5.0\<close> are the doubles \<open>0x4024000000000000\<close>, \<open>0x4000000000000000\<close> and
  \<open>0x4014000000000000\<close>.
\<close>

definition test_main ::
  "(c_int \<Rightarrow> c_int \<Rightarrow> c_int prog) \<Rightarrow> (c_int \<Rightarrow> c_int \<Rightarrow> c_int prog) \<Rightarrow>
   (c_double \<Rightarrow> c_double \<Rightarrow> c_double prog) \<Rightarrow> c_int prog" where
  "test_main add_fn multiply_fn divide_safe_fn w0 =
    (let w1 = printf ''Testing MathLib (built with Poltergeist)\<newline>'' [] w0;
         (sum, w2) = add_fn 5 3 w1;
         w3 = printf ''add(5, 3) = %d\<newline>'' [IntArg sum] w2;
         (product, w4) = multiply_fn 4 7 w3;
         w5 = printf ''multiply(4, 7) = %d\<newline>'' [IntArg product] w4;
         (result, w6) = divide_safe_fn 0x4024000000000000 0x4000000000000000 w5;
         w7 = printf ''divide_safe(10.0, 2.0) = %.2f\<newline>'' [DoubleArg result] w6;
         (safe, w8) = divide_safe_fn 0x4014000000000000 0 w7;
         w9 = printf ''divide_safe(5.0, 0.0) = %.2f (safe!)\<newline>'' [DoubleArg safe] w8
     in (0, w9))"

definition main :: "c_int prog" where
  "main = test_main add multiply divide_safe"

subsection \<open>math\_ops.c with the floating-point environment\<close>

text \<open>
  The translations above are the program in the default floating-point environment. ISO C
  (7.6) makes that environment part of the state of a thread: the rounding direction
  mode, which \<^verbatim>\<open>/\<close> reads, and the five status flags of IEEE 754, which \<^verbatim>\<open>/\<close> and \<^verbatim>\<open>==\<close>
  raise and never clear. Here the three functions are translated once more, over a state
  that holds the environment beside the standard output.
\<close>

datatype rounding_mode = ToNearest | Upward | Downward | TowardZero

datatype fp_exception = Invalid | DivByZero | Overflow | Underflow | Inexact

record machine = world +
  rounding :: rounding_mode
  flags :: "fp_exception set"

definition raise :: "fp_exception set \<Rightarrow> machine \<Rightarrow> machine" where
  "raise xs s = s\<lparr>flags := flags s \<union> xs\<rparr>"

text \<open>
  A signaling NaN is a NaN whose first fraction bit is 0; as an operand of \<^verbatim>\<open>==\<close> or
  \<^verbatim>\<open>/\<close> it raises the invalid flag.
\<close>

definition is_signaling :: "c_double \<Rightarrow> bool" where
  "is_signaling x = (is_nan x \<and> \<not> bit x 51)"

definition feq_raises :: "c_double \<Rightarrow> c_double \<Rightarrow> fp_exception set" where
  "feq_raises a b = (if is_signaling a \<or> is_signaling b then {Invalid} else {})"

text \<open>
  Division in a rounding mode. The quotient \<open>n / d\<close> of the scaled magnitudes is rounded
  to an integer to nearest, towards zero, or towards plus or minus infinity, where \<open>neg\<close>
  says that the quotient is negative. \<open>quotient_exponent\<close> is the integer part of the
  binary logarithm of the exact quotient. An overflow gives the infinity or the largest
  finite number, whichever the mode rounds to.
\<close>

fun round_div :: "rounding_mode \<Rightarrow> bool \<Rightarrow> int \<Rightarrow> int \<Rightarrow> int" where
  "round_div ToNearest neg n d = rne_div n d"
| "round_div TowardZero neg n d = n div d"
| "round_div Upward neg n d = (if neg \<or> n mod d = 0 then n div d else n div d + 1)"
| "round_div Downward neg n d = (if neg \<and> n mod d \<noteq> 0 then n div d + 1 else n div d)"

definition quotient_exponent :: "int \<Rightarrow> int \<Rightarrow> int \<Rightarrow> int \<Rightarrow> int" where
  "quotient_exponent ma qa mb qb =
    (let d = bitlen ma - bitlen mb;
         fl = (if shl mb d \<le> shl ma (- d) then d else d - 1)
     in fl + qa - qb)"

definition rounded_at ::
  "rounding_mode \<Rightarrow> bool \<Rightarrow> int \<Rightarrow> int \<Rightarrow> int \<Rightarrow> int \<Rightarrow> int \<Rightarrow> int" where
  "rounded_at mode neg ma qa mb qb q =
    (let k = qa - qb - q in round_div mode neg (shl ma k) (shl mb (- k)))"

definition exact_at :: "int \<Rightarrow> int \<Rightarrow> int \<Rightarrow> int \<Rightarrow> int \<Rightarrow> bool" where
  "exact_at ma qa mb qb q = (let k = qa - qb - q in shl ma k mod shl mb (- k) = 0)"

definition quotient_bits_in ::
  "rounding_mode \<Rightarrow> bool \<Rightarrow> int \<Rightarrow> int \<Rightarrow> int \<Rightarrow> int \<Rightarrow> int" where
  "quotient_bits_in mode neg ma qa mb qb =
    (let q = max (quotient_exponent ma qa mb qb - 52) (- 1074)
     in (q + 1074) * 2 ^ 52 + rounded_at mode neg ma qa mb qb q)"

definition max_finite :: "bool \<Rightarrow> c_double" where
  "max_finite s = (if s then 0xFFEFFFFFFFFFFFFF else 0x7FEFFFFFFFFFFFFF)"

fun overflow_result :: "rounding_mode \<Rightarrow> bool \<Rightarrow> c_double" where
  "overflow_result ToNearest s = infinity s"
| "overflow_result TowardZero s = max_finite s"
| "overflow_result Upward s = (if s then max_finite s else infinity s)"
| "overflow_result Downward s = (if s then infinity s else max_finite s)"

definition pack_in :: "rounding_mode \<Rightarrow> bool \<Rightarrow> int \<Rightarrow> c_double" where
  "pack_in mode s n =
    (if 0x7FF0000000000000 \<le> n then overflow_result mode s else zero s + word_of_int n)"

fun fdiv_unpacked_in :: "rounding_mode \<Rightarrow> unpacked \<Rightarrow> unpacked \<Rightarrow> c_double" where
  "fdiv_unpacked_in mode NaN y = quiet_nan"
| "fdiv_unpacked_in mode x NaN = quiet_nan"
| "fdiv_unpacked_in mode (Infinite s) (Infinite t) = quiet_nan"
| "fdiv_unpacked_in mode (Infinite s) (Finite t mb qb) = infinity (s \<noteq> t)"
| "fdiv_unpacked_in mode (Finite s ma qa) (Infinite t) = zero (s \<noteq> t)"
| "fdiv_unpacked_in mode (Finite s ma qa) (Finite t mb qb) =
    (if mb = 0 then (if ma = 0 then quiet_nan else infinity (s \<noteq> t))
     else if ma = 0 then zero (s \<noteq> t)
     else pack_in mode (s \<noteq> t) (quotient_bits_in mode (s \<noteq> t) ma qa mb qb))"

definition fdiv_in :: "rounding_mode \<Rightarrow> c_double \<Rightarrow> c_double \<Rightarrow> c_double" where
  "fdiv_in mode a b = fdiv_unpacked_in mode (unpack a) (unpack b)"

text \<open>
  The flags a division raises: invalid for a signaling NaN, for \<open>0 / 0\<close> and for
  \<open>\<infinity> / \<infinity>\<close>; division by zero for a finite number other than zero divided by zero;
  overflow, with inexact, when the rounded quotient is beyond the largest finite number;
  inexact when the quotient returned is not the exact one; and underflow when it is
  inexact and tiny. Whether a quotient is tiny is decided after rounding it to 53
  bits with no bound on the exponent, as x86-64 does (IEEE 754 leaves the choice between
  that and deciding before rounding to the implementation).
\<close>

definition quotient_raises ::
  "rounding_mode \<Rightarrow> bool \<Rightarrow> int \<Rightarrow> int \<Rightarrow> int \<Rightarrow> int \<Rightarrow> fp_exception set" where
  "quotient_raises mode neg ma qa mb qb =
    (let e = quotient_exponent ma qa mb qb;
         tiny = (e < - 1022 \<and> \<not> (e = - 1023 \<and> rounded_at mode neg ma qa mb qb (e - 52) = 2 ^ 53))
     in if 0x7FF0000000000000 \<le> quotient_bits_in mode neg ma qa mb qb then {Overflow, Inexact}
        else if exact_at ma qa mb qb (max (e - 52) (- 1074)) then {}
        else if tiny then {Underflow, Inexact}
        else {Inexact})"

fun fdiv_raises_unpacked :: "rounding_mode \<Rightarrow> unpacked \<Rightarrow> unpacked \<Rightarrow> fp_exception set" where
  "fdiv_raises_unpacked mode NaN y = {}"
| "fdiv_raises_unpacked mode x NaN = {}"
| "fdiv_raises_unpacked mode (Infinite s) (Infinite t) = {Invalid}"
| "fdiv_raises_unpacked mode (Infinite s) (Finite t mb qb) = {}"
| "fdiv_raises_unpacked mode (Finite s ma qa) (Infinite t) = {}"
| "fdiv_raises_unpacked mode (Finite s ma qa) (Finite t mb qb) =
    (if mb = 0 then (if ma = 0 then {Invalid} else {DivByZero})
     else if ma = 0 then {}
     else quotient_raises mode (s \<noteq> t) ma qa mb qb)"

definition fdiv_raises :: "rounding_mode \<Rightarrow> c_double \<Rightarrow> c_double \<Rightarrow> fp_exception set" where
  "fdiv_raises mode a b =
    (if is_signaling a \<or> is_signaling b then {Invalid}
     else fdiv_raises_unpacked mode (unpack a) (unpack b))"

text \<open>The operators \<^verbatim>\<open>==\<close> and \<^verbatim>\<open>/\<close> on the state.\<close>

definition feq_fenv :: "c_double \<Rightarrow> c_double \<Rightarrow> machine \<Rightarrow> bool \<times> machine" where
  "feq_fenv a b s = (feq a b, raise (feq_raises a b) s)"

definition fdiv_fenv :: "c_double \<Rightarrow> c_double \<Rightarrow> machine \<Rightarrow> c_double \<times> machine" where
  "fdiv_fenv a b s = (fdiv_in (rounding s) a b, raise (fdiv_raises (rounding s) a b) s)"

text \<open>\<^verbatim>\<open>int add(int a, int b) { return a + b; }\<close>\<close>

definition add_fenv :: "c_int \<Rightarrow> c_int \<Rightarrow> machine \<Rightarrow> c_int \<times> machine" where
  "add_fenv a b s = (a + b, s)"

text \<open>\<^verbatim>\<open>int multiply(int a, int b) { return a * b; }\<close>\<close>

definition multiply_fenv :: "c_int \<Rightarrow> c_int \<Rightarrow> machine \<Rightarrow> c_int \<times> machine" where
  "multiply_fenv a b s = (a * b, s)"

text \<open>
  \<^verbatim>\<open>double divide_safe(double a, double b) { if (b == 0.0) { return 0.0; } return a / b; }\<close>
\<close>

definition divide_safe_fenv :: "c_double \<Rightarrow> c_double \<Rightarrow> machine \<Rightarrow> c_double \<times> machine" where
  "divide_safe_fenv a b s =
    (let (is_zero_b, s1) = feq_fenv b 0 s
     in if is_zero_b then (0, s1) else fdiv_fenv a b s1)"

section \<open>Properties\<close>

subsection \<open>The double literals and test values\<close>

lemmas field_defs = unpack_def biased_exp_def fraction_def sign_bit_def

lemma unpack_pos_zero: "unpack 0 = Finite False 0 (- 1074)"
  by (simp add: field_defs)

lemma unpack_neg_zero: "unpack 0x8000000000000000 = Finite True 0 (- 1074)"
  by (simp add: field_defs)

lemma unpack_1: "unpack 0x3FF0000000000000 = Finite False 4503599627370496 (- 52)"
  by (simp add: field_defs)

lemma unpack_neg_1: "unpack 0xBFF0000000000000 = Finite True 4503599627370496 (- 52)"
  by (simp add: field_defs)

lemma unpack_2: "unpack 0x4000000000000000 = Finite False 4503599627370496 (- 51)"
  by (simp add: field_defs)

lemma unpack_3: "unpack 0x4008000000000000 = Finite False 6755399441055744 (- 51)"
  by (simp add: field_defs)

lemma unpack_5: "unpack 0x4014000000000000 = Finite False 5629499534213120 (- 50)"
  by (simp add: field_defs)

lemma unpack_10: "unpack 0x4024000000000000 = Finite False 5629499534213120 (- 49)"
  by (simp add: field_defs)

lemma unpack_1e308: "unpack 0x7FE1CCF385EBC8A0 = Finite False 5010420900022432 971"
  by (simp add: field_defs)

lemma unpack_1e_308: "unpack 0x000730D67819E8D2 = Finite False 2024022533073106 (- 1074)"
  by (simp add: field_defs)

lemma unpack_min_normal: "unpack 0x0010000000000000 = Finite False 4503599627370496 (- 1074)"
  by (simp add: field_defs)

lemma unpack_subnormal_1: "unpack 1 = Finite False 1 (- 1074)"
  by (simp add: field_defs)

lemma unpack_subnormal_3: "unpack 3 = Finite False 3 (- 1074)"
  by (simp add: field_defs)

lemma unpack_quiet_nan: "unpack quiet_nan = NaN"
  by (simp add: quiet_nan_def field_defs)

lemma unpack_infinity: "unpack (infinity s) = Infinite s"
  by (simp add: infinity_def field_defs)

text \<open>The values of the literals of the driver.\<close>

lemma valof_literals:
  "valof 0 = 0"
  "valof 0x4000000000000000 = 2"
  "valof 0x4014000000000000 = 5"
  "valof 0x4024000000000000 = 10"
  by (simp_all add: valof_def fin_val_def unpack_pos_zero unpack_2 unpack_5 unpack_10)

text \<open>
  \<open>0x7FE1CCF385EBC8A0\<close> and \<open>0x000730D67819E8D2\<close> are the doubles nearest to \<open>10 ^ 308\<close>
  and to \<open>10 ^ - 308\<close>, within half the distance to their neighbours.
\<close>

lemma valof_1e308: "\<bar>valof 0x7FE1CCF385EBC8A0 - 10 ^ 308\<bar> \<le> 2 ^ 970"
  by (simp add: valof_def fin_val_def unpack_1e308)

lemma valof_1e_308: "\<bar>valof 0x000730D67819E8D2 - 1 / 10 ^ 308\<bar> \<le> 1 / 2 ^ 1075"
  by (simp add: valof_def fin_val_def unpack_1e_308)

subsection \<open>Comparison with zero\<close>

lemma fin_val_0: "fin_val s 0 q = 0"
  by (simp add: fin_val_def)

lemma fin_val_eq_0: "fin_val s m q = 0 \<longleftrightarrow> m = 0"
  by (simp add: fin_val_def)

text \<open>\<^verbatim>\<open>b == 0.0\<close> holds for the two zeros and for no other double.\<close>

lemma feq_zero_iff: "feq b 0 = is_zero b"
proof -
  have "feq b 0 = feq_unpacked (unpack b) (Finite False 0 (- 1074))"
    by (simp add: feq_def unpack_pos_zero)
  also have "\<dots> = is_zero b"
    by (simp add: unpack_def is_zero_def fin_val_eq_0 fin_val_0)
  finally show ?thesis .
qed

text \<open>The zeros are the positive zero and the negative zero.\<close>

lemma take_bit_63_eq_0:
  fixes b :: "64 word"
  assumes "take_bit 52 b = 0" "take_bit 11 (drop_bit 52 b) = 0"
  shows "take_bit 63 b = 0"
proof (rule bit_eqI)
  fix n
  show "bit (take_bit 63 b) n = bit (0::64 word) n"
  proof (cases "n < 52")
    case True
    have "bit (take_bit 52 b) n = False" using assms(1) by simp
    with True show ?thesis by (simp add: bit_take_bit_iff)
  next
    case False
    have "bit (take_bit 11 (drop_bit 52 b)) (n - 52) = False" using assms(2) by simp
    with False show ?thesis by (auto simp add: bit_take_bit_iff bit_drop_bit_eq)
  qed
qed

lemma is_zero_iff: "is_zero b \<longleftrightarrow> b = 0 \<or> b = 0x8000000000000000"
proof
  assume "is_zero b"
  then have "take_bit 63 b = 0"
    by (intro take_bit_63_eq_0) (simp_all add: is_zero_def biased_exp_def fraction_def unat_eq_0)
  have eq: "b = push_bit 63 (drop_bit 63 b)"
    using bits_ident [of 63 b] \<open>take_bit 63 b = 0\<close> by simp
  have "unat (drop_bit 63 b) = unat b div 2 ^ 63"
    unfolding unat_drop_bit_eq by (rule drop_bit_eq_div)
  moreover have "unat b < 2 ^ 64"
    using unsigned_less [of b] by simp
  ultimately have "unat (drop_bit 63 b) < 2"
    by simp
  then have "drop_bit 63 b = 0 \<or> drop_bit 63 b = 1"
    by (auto simp: less_2_cases_iff word_unat_eq_iff)
  then show "b = 0 \<or> b = 0x8000000000000000"
    using eq by auto
next
  assume "b = 0 \<or> b = 0x8000000000000000"
  then show "is_zero b"
    by (auto simp: is_zero_def biased_exp_def fraction_def)
qed

lemma nan_not_feq: "is_nan a \<Longrightarrow> \<not> feq a b \<and> \<not> feq b a"
  by (cases "unpack b") (simp_all add: feq_def unpack_def is_nan_def)


subsection \<open>Division on test values\<close>

text \<open>
  Quotients that are exact, that round down and up, that overflow, that are subnormal,
  that fall on a tie between two subnormal numbers, and that underflow to zero.
\<close>

lemma quotient_bits_10_2:
  "quotient_bits 5629499534213120 (- 49) 4503599627370496 (- 51) = 0x4014000000000000"
  by code_simp

lemma quotient_bits_1_3:
  "quotient_bits 4503599627370496 (- 52) 6755399441055744 (- 51) = 0x3FD5555555555555"
  by code_simp

lemma quotient_bits_1_10:
  "quotient_bits 4503599627370496 (- 52) 5629499534213120 (- 49) = 0x3FB999999999999A"
  by code_simp

lemma quotient_bits_overflow:
  "0x7FF0000000000000 \<le> quotient_bits 5010420900022432 971 2024022533073106 (- 1074)"
  by code_simp

lemma quotient_bits_underflow:
  "quotient_bits 2024022533073106 (- 1074) 5010420900022432 971 = 0"
  by code_simp

lemma quotient_bits_subnormal:
  "quotient_bits 4503599627370496 (- 1074) 4503599627370496 (- 51) = 0x0008000000000000"
  by code_simp

lemma quotient_bits_tie_3_2: "quotient_bits 3 (- 1074) 4503599627370496 (- 51) = 2"
  by code_simp

lemma quotient_bits_tie_1_2: "quotient_bits 1 (- 1074) 4503599627370496 (- 51) = 0"
  by code_simp

lemma fdiv_10_2: "fdiv 0x4024000000000000 0x4000000000000000 = 0x4014000000000000"
  by (simp add: fdiv_def unpack_10 unpack_2 quotient_bits_10_2 pack_def zero_def)

lemma fdiv_1_3: "fdiv 0x3FF0000000000000 0x4008000000000000 = 0x3FD5555555555555"
  by (simp add: fdiv_def unpack_1 unpack_3 quotient_bits_1_3 pack_def zero_def)

lemma fdiv_neg_1_3: "fdiv 0xBFF0000000000000 0x4008000000000000 = 0xBFD5555555555555"
  by (simp add: fdiv_def unpack_neg_1 unpack_3 quotient_bits_1_3 pack_def zero_def)

lemma fdiv_1_10: "fdiv 0x3FF0000000000000 0x4024000000000000 = 0x3FB999999999999A"
  by (simp add: fdiv_def unpack_1 unpack_10 quotient_bits_1_10 pack_def zero_def)

lemma fdiv_1e308_1e_308: "fdiv 0x7FE1CCF385EBC8A0 0x000730D67819E8D2 = 0x7FF0000000000000"
  by (simp add: fdiv_def unpack_1e308 unpack_1e_308 quotient_bits_overflow pack_def infinity_def)

lemma fdiv_1e_308_1e308: "fdiv 0x000730D67819E8D2 0x7FE1CCF385EBC8A0 = 0"
  by (simp add: fdiv_def unpack_1e308 unpack_1e_308 quotient_bits_underflow pack_def zero_def)

lemma fdiv_min_normal_2: "fdiv 0x0010000000000000 0x4000000000000000 = 0x0008000000000000"
  by (simp add: fdiv_def unpack_min_normal unpack_2 quotient_bits_subnormal pack_def zero_def)

lemma fdiv_tie_3_2: "fdiv 3 0x4000000000000000 = 2"
  by (simp add: fdiv_def unpack_subnormal_3 unpack_2 quotient_bits_tie_3_2 pack_def zero_def)

lemma fdiv_tie_1_2: "fdiv 1 0x4000000000000000 = 0"
  by (simp add: fdiv_def unpack_subnormal_1 unpack_2 quotient_bits_tie_1_2 pack_def zero_def)

lemma fdiv_1_pos_zero: "fdiv 0x3FF0000000000000 0 = 0x7FF0000000000000"
  by (simp add: fdiv_def unpack_1 unpack_pos_zero infinity_def)

lemma fdiv_1_neg_zero: "fdiv 0x3FF0000000000000 0x8000000000000000 = 0xFFF0000000000000"
  by (simp add: fdiv_def unpack_1 unpack_neg_zero infinity_def)

subsection \<open>Division by a zero and by a NaN\<close>

lemma is_nan_quiet_nan: "is_nan quiet_nan"
  by (simp add: is_nan_def quiet_nan_def biased_exp_def fraction_def)

lemma is_infinity_infinity: "is_infinity (infinity s)"
  by (simp add: is_infinity_def infinity_def biased_exp_def fraction_def)

lemma is_nan_unpack: "is_nan x \<longleftrightarrow> unpack x = NaN"
  by (simp add: is_nan_def unpack_def)

lemma fdiv_nan: "is_nan b \<Longrightarrow> fdiv a b = quiet_nan"
  by (cases "unpack a") (simp_all add: fdiv_def is_nan_unpack)

lemma fdiv_by_zero: "is_zero b \<Longrightarrow> is_nan (fdiv a b) \<or> is_infinity (fdiv a b)"
proof -
  assume "is_zero b"
  then have b: "unpack b = Finite (sign_bit b) 0 (- 1074)"
    by (simp add: is_zero_def unpack_def)
  show ?thesis
    by (cases "unpack a") (simp_all add: fdiv_def b is_nan_quiet_nan is_infinity_infinity)
qed

subsection \<open>Rounding an integer quotient\<close>

text \<open>
  \<open>rne_div n d\<close> is an integer nearest to \<open>n / d\<close>, and the even one when \<open>n / d\<close> is
  half way between two integers.
\<close>

lemma rne_div_near:
  assumes "0 < d"
  shows "\<bar>of_int (rne_div n d) - (of_int n / of_int d :: rat)\<bar> \<le> 1 / 2"
proof -
  define q r where "q = n div d" and "r = n mod d"
  have n: "n = d * q + r"
    by (simp add: q_def r_def)
  have r: "0 \<le> r" "r < d"
    using assms by (simp_all add: r_def)
  have d: "(0::rat) < of_int d"
    using assms by simp
  have frac: "(of_int n / of_int d :: rat) = of_int q + of_int r / of_int d"
    using d by (simp add: n field_simps)
  show ?thesis
  proof (cases "2 * r < d \<or> (2 * r = d \<and> even q)")
    case True
    then have "rne_div n d = q"
      by (simp add: rne_div_def q_def r_def Let_def)
    moreover have "2 * r \<le> d"
      using True by auto
    then have "(2 :: rat) * of_int r \<le> of_int d"
      by (metis of_int_le_iff of_int_mult of_int_numeral)
    then have "(of_int r / of_int d :: rat) \<le> 1 / 2"
      using d by (simp add: field_simps)
    moreover have "(0 :: rat) \<le> of_int r / of_int d"
      using r d by simp
    ultimately show ?thesis
      by (simp add: frac)
  next
    case False
    then have "rne_div n d = q + 1"
      by (simp add: rne_div_def q_def r_def Let_def)
    moreover have "d \<le> 2 * r"
      using False by auto
    then have "(of_int d :: rat) \<le> 2 * of_int r"
      by (metis of_int_le_iff of_int_mult of_int_numeral)
    then have "(1 / 2 :: rat) \<le> of_int r / of_int d"
      using d by (simp add: field_simps)
    moreover have "(of_int r / of_int d :: rat) < 1"
      using r d by simp
    ultimately show ?thesis
      by (simp add: frac)
  qed
qed

lemma rne_div_tie:
  assumes "0 < d" "\<bar>of_int (rne_div n d) - (of_int n / of_int d :: rat)\<bar> = 1 / 2"
  shows "even (rne_div n d)"
proof -
  define q r where "q = n div d" and "r = n mod d"
  define t :: rat where "t = of_int r / of_int d"
  have n: "n = d * q + r"
    by (simp add: q_def r_def)
  have d: "(0::rat) < of_int d"
    using assms(1) by simp
  have frac: "(of_int n / of_int d :: rat) = of_int q + t"
    using d by (simp add: n t_def field_simps)
  have t: "0 \<le> t" "t < 1"
    using assms(1) d by (simp_all add: t_def r_def)
  have half: "2 * r = d" if "t = 1 / 2"
  proof -
    from that d have "(of_int (2 * r) :: rat) = of_int d"
      by (simp add: t_def field_simps)
    then show ?thesis
      by (simp only: of_int_eq_iff)
  qed
  show ?thesis
  proof (cases "2 * r < d \<or> (2 * r = d \<and> even q)")
    case True
    then have res: "rne_div n d = q"
      by (simp add: rne_div_def q_def r_def Let_def)
    have "\<bar>of_int q - (of_int q + t)\<bar> = t"
      using t(1) by simp
    with assms(2) have "t = 1 / 2"
      by (simp only: res frac)
    then have "2 * r = d"
      by (rule half)
    with True show ?thesis
      by (simp add: res)
  next
    case False
    then have res: "rne_div n d = q + 1"
      by (simp add: rne_div_def q_def r_def Let_def)
    have "\<bar>of_int (q + 1) - (of_int q + t)\<bar> = 1 - t"
      using t(2) by simp
    with assms(2) have "t = 1 / 2"
      by (simp only: res frac)
    then have "2 * r = d"
      by (rule half)
    with False show ?thesis
      by (simp add: res)
  qed
qed

lemma rne_div_exact:
  assumes "0 < d"
  shows "n mod d = 0 \<longleftrightarrow> of_int (rne_div n d) = (of_int n / of_int d :: rat)"
proof -
  define q r where "q = n div d" and "r = n mod d"
  define t :: rat where "t = of_int r / of_int d"
  have n: "n = d * q + r"
    by (simp add: q_def r_def)
  have d: "(0::rat) < of_int d"
    using assms by simp
  have frac: "(of_int n / of_int d :: rat) = of_int q + t"
    using d by (simp add: n t_def field_simps)
  have t: "0 \<le> t" "t < 1"
    using assms d by (simp_all add: t_def r_def)
  have t0: "t = 0 \<longleftrightarrow> r = 0"
    using d by (simp add: t_def)
  show ?thesis
  proof (cases "2 * r < d \<or> (2 * r = d \<and> even q)")
    case True
    then have "rne_div n d = q"
      by (simp add: rne_div_def q_def r_def Let_def)
    then show ?thesis
      using t0 by (simp add: frac flip: r_def)
  next
    case False
    then have res: "rne_div n d = q + 1"
      by (simp add: rne_div_def q_def r_def Let_def)
    from False assms have "r \<noteq> 0"
      by auto
    moreover have "(of_int (q + 1) :: rat) \<noteq> of_int q + t"
      using t(2) by simp
    ultimately show ?thesis
      by (simp add: res frac flip: r_def)
  qed
qed

subsection \<open>The binary logarithm of the quotient of the significands\<close>

lemma shl_ratio:
  assumes "d \<noteq> 0"
  shows "(of_int (shl n k) / of_int (shl d (- k)) :: rat) = of_int n / of_int d * 2 powi k"
proof (cases "0 \<le> k")
  case True
  then show ?thesis
    by (cases "k = 0") (simp_all add: shl_def power_int_nonneg_exp)
next
  case False
  then have "(2 :: rat) powi k = 1 / 2 ^ nat (- k)"
    using power_int_minus_divide [of "2 :: rat" "- k"] by (simp add: power_int_nonneg_exp)
  with False show ?thesis
    by (simp add: shl_def)
qed

lemma shl_pos: "0 < n \<Longrightarrow> 0 < shl n k"
  by (simp add: shl_def)

lemma bitlen_powi_bounds:
  assumes "0 < x"
  shows "(2 :: rat) powi (bitlen x - 1) \<le> of_int x" "(of_int x :: rat) < 2 powi bitlen x"
proof -
  from assms have ge1: "1 \<le> bitlen x"
    using bitlen_eq_zero_iff [of x] bitlen_nonneg [of x] by linarith
  have "(2 :: int) ^ nat (bitlen x - 1) \<le> x" "x < 2 ^ nat (bitlen x)"
    using bitlen_bounds [OF assms] by simp_all
  then have "(of_int ((2 :: int) ^ nat (bitlen x - 1)) :: rat) \<le> of_int x"
    "(of_int x :: rat) < of_int (2 ^ nat (bitlen x))"
    by (simp_all only: of_int_le_iff of_int_less_iff)
  then show "(2 :: rat) powi (bitlen x - 1) \<le> of_int x" "(of_int x :: rat) < 2 powi bitlen x"
    using ge1 by (simp_all add: power_int_nonneg_exp)
qed

lemma powi_2_pos: "(0 :: rat) < 2 powi k"
  by simp

lemma shl_test:
  assumes "0 < ma" "0 < mb"
  shows "shl mb d \<le> shl ma (- d) \<longleftrightarrow> (2 :: rat) powi d \<le> of_int ma / of_int mb"
proof -
  have pos: "(0 :: rat) < of_int (shl mb d)"
    using shl_pos [OF assms(2)] by simp
  have "shl mb d \<le> shl ma (- d) \<longleftrightarrow> (of_int (shl mb d) :: rat) \<le> of_int (shl ma (- d))"
    by simp
  also have "\<dots> \<longleftrightarrow> (1 :: rat) \<le> of_int (shl ma (- d)) / of_int (shl mb d)"
    using pos by (simp add: field_simps)
  also have "(of_int (shl ma (- d)) / of_int (shl mb d) :: rat) = of_int ma / of_int mb * 2 powi (- d)"
    using shl_ratio [of mb ma "- d"] assms by simp
  also have "(1 :: rat) \<le> of_int ma / of_int mb * 2 powi (- d) \<longleftrightarrow>
      (2 :: rat) powi d \<le> of_int ma / of_int mb"
    using powi_2_pos [of d] assms(2) by (simp add: power_int_minus field_simps)
  finally show ?thesis .
qed

lemma floor_log_bounds:
  assumes "0 < ma" "0 < mb"
  defines "d \<equiv> bitlen ma - bitlen mb"
  defines "fl \<equiv> (if shl mb d \<le> shl ma (- d) then d else d - 1)"
  shows "(2 :: rat) powi fl \<le> of_int ma / of_int mb"
    and "(of_int ma / of_int mb :: rat) < 2 powi (fl + 1)"
proof -
  let ?x = "of_int ma / of_int mb :: rat"
  have a: "(2 :: rat) powi (bitlen ma - 1) \<le> of_int ma" "(of_int ma :: rat) < 2 powi bitlen ma"
    using bitlen_powi_bounds [OF assms(1)] by simp_all
  have b: "(2 :: rat) powi (bitlen mb - 1) \<le> of_int mb" "(of_int mb :: rat) < 2 powi bitlen mb"
    using bitlen_powi_bounds [OF assms(2)] by simp_all
  have mb: "(0 :: rat) < of_int mb" and ma: "(0 :: rat) < of_int ma"
    using assms by simp_all
  have "?x < 2 powi bitlen ma / of_int mb"
    using a(2) mb by (simp add: divide_strict_right_mono)
  also have "\<dots> \<le> 2 powi bitlen ma / 2 powi (bitlen mb - 1)"
    using b(1) mb by (simp add: frac_le)
  also have "\<dots> = 2 powi (d + 1)"
    by (simp add: d_def power_int_diff [symmetric] algebra_simps)
  finally have upper: "?x < 2 powi (d + 1)" .
  have "(2 :: rat) powi (d - 1) = 2 powi (bitlen ma - 1) / 2 powi bitlen mb"
    by (simp add: d_def power_int_diff [symmetric] algebra_simps)
  also have "\<dots> \<le> of_int ma / 2 powi bitlen mb"
    using a(1) by (simp add: divide_right_mono)
  also have "\<dots> < ?x"
    using b(2) ma mb by (simp add: frac_less2)
  finally have lower: "(2 :: rat) powi (d - 1) < ?x" .
  show "(2 :: rat) powi fl \<le> ?x"
    using lower shl_test [OF assms(1,2), of d] by (simp add: fl_def)
  show "?x < 2 powi (fl + 1)"
    using upper shl_test [OF assms(1,2), of d] by (simp add: fl_def)
qed

subsection \<open>Packing a significand and an exponent\<close>

text \<open>
  The fields of a double in terms of its value as an unsigned integer, and the double
  that \<open>pack\<close> builds below the encoding of infinity: it stands for \<open>m * 2 ^ q\<close>, also
  when \<open>m\<close> is \<open>2 ^ 53\<close> and carries into the exponent.
\<close>

lemma fraction_unat: "fraction x = unat x mod 2 ^ 52"
proof -
  have "fraction x = take_bit 52 (unat x)"
    by (simp only: fraction_def unsigned_take_bit_eq)
  then show ?thesis
    by (simp only: take_bit_eq_mod)
qed

lemma biased_exp_unat: "biased_exp x = unat x div 2 ^ 52 mod 2 ^ 11"
proof -
  have "biased_exp x = take_bit 11 (drop_bit 52 (unat x))"
    by (simp only: biased_exp_def unsigned_take_bit_eq unat_drop_bit_eq)
  then show ?thesis
    by (simp only: take_bit_eq_mod drop_bit_eq_div)
qed

lemma sign_bit_unat: "sign_bit x \<longleftrightarrow> 2 ^ 63 \<le> unat x"
proof -
  have lt: "unat x < 2 ^ 64"
    using unsigned_less [of x] by simp
  have "sign_bit x \<longleftrightarrow> bit (unat x) 63"
    by (simp add: sign_bit_def bit_unsigned_iff)
  also have "\<dots> \<longleftrightarrow> odd (unat x div 2 ^ 63)"
    by (rule bit_iff_odd)
  also have "\<dots> \<longleftrightarrow> 2 ^ 63 \<le> unat x"
  proof (cases "2 ^ 63 \<le> unat x")
    case True
    with lt have "unat x div 2 ^ 63 = 1"
      by simp
    with True show ?thesis by simp
  next
    case False
    then have "unat x div 2 ^ 63 = 0"
      by simp
    with False show ?thesis by simp
  qed
  finally show ?thesis .
qed

lemma unat_pack:
  assumes "0 \<le> n" "n < 0x7FF0000000000000"
  shows "unat (zero s + word_of_int n) = (if s then 2 ^ 63 else 0) + nat n"
proof -
  have n: "unat (word_of_int n :: c_double) = nat n"
  proof (rule of_nat_inverse)
    show "(word_of_nat (nat n) :: c_double) = word_of_int n"
      using assms(1) by simp
    show "nat n < 2 ^ LENGTH(64)"
      using assms by simp
  qed
  have z: "unat (zero s) = (if s then 2 ^ 63 else 0)"
    by (simp add: zero_def)
  have "nat n < 2 ^ 63"
    using assms by simp
  then have "unat (zero s) + unat (word_of_int n :: c_double) < 2 ^ LENGTH(64)"
    by (simp add: n z)
  then have "unat (zero s + word_of_int n) = unat (zero s) + unat (word_of_int n :: c_double)"
    by (rule unat_add_lem [THEN iffD1])
  then show ?thesis
    by (simp only: n z)
qed

lemma unpack_pack:
  assumes "0 \<le> n" "n < 0x7FF0000000000000"
  shows "unpack (zero s + word_of_int n) =
    (if n div 2 ^ 52 = 0 then Finite s (n mod 2 ^ 52) (- 1074)
     else Finite s (2 ^ 52 + n mod 2 ^ 52) (n div 2 ^ 52 - 1075))"
proof -
  define w where "w = zero s + word_of_int n"
  define N where "N = nat n"
  have u: "unat w = (if s then 2 ^ 63 else 0) + N"
    unfolding w_def N_def by (rule unat_pack [OF assms])
  have N: "N < 2047 * 2 ^ 52"
    using assms by (simp add: N_def)
  then have e: "N div 2 ^ 52 < 2047"
    by (simp add: less_mult_imp_div_less)
  have f: "fraction w = N mod 2 ^ 52"
    using mod_mult_self3 [of 2048 4503599627370496 N] by (simp add: fraction_unat u)
  have "biased_exp w = N div 2 ^ 52 mod 2 ^ 11"
    using div_mult_self3 [of 4503599627370496 2048 N] by (simp add: biased_exp_unat u)
  with e have b: "biased_exp w = N div 2 ^ 52"
    by simp
  have sg: "sign_bit w = s"
    using N by (simp add: sign_bit_unat u)
  have i: "int (N div 2 ^ 52) = n div 2 ^ 52" "int (N mod 2 ^ 52) = n mod 2 ^ 52"
    using assms(1) by (simp_all add: N_def zdiv_int zmod_int)
  have "unpack w =
    (if N div 2 ^ 52 = 0 then Finite s (int (N mod 2 ^ 52)) (- 1074)
     else Finite s (2 ^ 52 + int (N mod 2 ^ 52)) (int (N div 2 ^ 52) - 1075))"
    using e by (simp add: unpack_def f b sg)
  moreover have "N div 2 ^ 52 = 0 \<longleftrightarrow> n div 2 ^ 52 = 0"
    using i(1) by (metis of_nat_eq_0_iff)
  ultimately show ?thesis
    by (simp only: i w_def)
qed

lemma div_mod_split:
  fixes k b r :: int
  assumes "0 \<le> r" "r < b"
  shows "(k * b + r) div b = k" "(k * b + r) mod b = r"
  using assms by simp_all

lemma valof_pack:
  assumes q: "- 1074 \<le> q" and m: "0 \<le> m" "m \<le> 2 ^ 53" "q = - 1074 \<or> 2 ^ 52 \<le> m"
    and n: "(q + 1074) * 2 ^ 52 + m < 0x7FF0000000000000"
  shows "\<exists>m' q'. unpack (zero s + word_of_int ((q + 1074) * 2 ^ 52 + m)) = Finite s m' q' \<and>
    fin_val s m' q' = fin_val s m q \<and> (even m \<longrightarrow> even m')"
proof -
  define n where "n = (q + 1074) * 2 ^ 52 + m"
  have n0: "0 \<le> n"
    using q m(1) by (simp add: n_def)
  have up: "unpack (zero s + word_of_int n) =
    (if n div 2 ^ 52 = 0 then Finite s (n mod 2 ^ 52) (- 1074)
     else Finite s (2 ^ 52 + n mod 2 ^ 52) (n div 2 ^ 52 - 1075))"
    using n0 n unfolding n_def [symmetric] by (rule unpack_pack)
  consider "m < 2 ^ 52" | "2 ^ 52 \<le> m" "m < 2 ^ 53" | "m = 2 ^ 53"
    using m(2) by linarith
  then have "\<exists>m' q'. unpack (zero s + word_of_int n) = Finite s m' q' \<and>
    fin_val s m' q' = fin_val s m q \<and> (even m \<longrightarrow> even m')"
  proof cases
    case 1
    with m(3) have q': "q = - 1074"
      by simp
    then have "n = m"
      by (simp add: n_def)
    with 1 m(1) have "n div 2 ^ 52 = 0" "n mod 2 ^ 52 = m"
      by simp_all
    then show ?thesis
      by (simp only: up q') simp
  next
    case 2
    have eq: "n = (q + 1075) * 2 ^ 52 + (m - 2 ^ 52)"
      by (simp add: n_def algebra_simps)
    have "n div 2 ^ 52 = q + 1075"
      unfolding eq by (rule div_mod_split) (use 2 in simp_all)
    moreover have "n mod 2 ^ 52 = m - 2 ^ 52"
      unfolding eq by (rule div_mod_split) (use 2 in simp_all)
    moreover have "q + 1075 \<noteq> 0"
      using q by simp
    ultimately show ?thesis
      by (simp only: up) simp
  next
    case 3
    have eq: "n = (q + 1076) * 2 ^ 52 + 0"
      by (simp add: n_def 3 algebra_simps)
    have "n div 2 ^ 52 = q + 1076"
      unfolding eq by (rule div_mod_split) simp_all
    moreover have "n mod 2 ^ 52 = 0"
      unfolding eq by (rule div_mod_split) simp_all
    moreover have "q + 1076 \<noteq> 0"
      using q by simp
    moreover have "fin_val s (2 ^ 52) (1 + q) = fin_val s (2 ^ 53) q"
      by (simp add: fin_val_def power_int_add)
    ultimately show ?thesis
      by (simp only: up 3) simp
  qed
  then show ?thesis
    by (simp only: n_def)
qed

subsection \<open>The significand and the exponent of a quotient\<close>

text \<open>
  For the exact quotient \<open>x\<close> of two positive finite numbers, \<open>quotient_bits\<close> encodes an
  exponent \<open>q\<close> and a significand \<open>m\<close> nearest to \<open>x / 2 ^ q\<close>, of 53 bits unless \<open>q\<close>
  is the least exponent.
\<close>

lemma quotient_bits_rounds:
  fixes ma mb qa qb :: int
  defines "x \<equiv> of_int ma / of_int mb * 2 powi (qa - qb) :: rat"
  assumes "0 < ma" "0 < mb"
  shows "\<exists>m q. quotient_bits ma qa mb qb = (q + 1074) * 2 ^ 52 + m \<and>
    - 1074 \<le> q \<and> 0 \<le> m \<and> m \<le> 2 ^ 53 \<and> (q = - 1074 \<or> 2 ^ 52 \<le> m) \<and>
    \<bar>of_int m - x * 2 powi (- q)\<bar> \<le> 1 / 2 \<and>
    (q = - 1074 \<or> 2 ^ 52 \<le> x * 2 powi (- q)) \<and>
    (\<bar>of_int m - x * 2 powi (- q)\<bar> = 1 / 2 \<longrightarrow> even m) \<and>
    q = max (quotient_exponent ma qa mb qb - 52) (- 1074) \<and>
    (exact_at ma qa mb qb q \<longleftrightarrow> of_int m = x * 2 powi (- q))"
proof -
  define d where "d = bitlen ma - bitlen mb"
  define fl where "fl = (if shl mb d \<le> shl ma (- d) then d else d - 1)"
  define q where "q = max (fl + qa - qb - 52) (- 1074)"
  define k where "k = qa - qb - q"
  define m where "m = rne_div (shl ma k) (shl mb (- k))"
  define y where "y = x * 2 powi (- q)"
  have bits: "quotient_bits ma qa mb qb = (q + 1074) * 2 ^ 52 + m"
    by (simp add: quotient_bits_def Let_def d_def fl_def q_def k_def m_def)
  have fl: "(2 :: rat) powi fl \<le> of_int ma / of_int mb" "(of_int ma / of_int mb :: rat) < 2 powi (fl + 1)"
    unfolding fl_def d_def by (rule floor_log_bounds [OF assms(2,3)])+
  have "(2 :: rat) powi (qa - qb) * 2 powi (- q) = 2 powi k"
    using power_int_add [of "2 :: rat" "qa - qb" "- q"] by (simp add: k_def)
  then have y: "y = of_int ma / of_int mb * 2 powi k"
    by (simp add: y_def x_def mult.assoc)
  have "(2 :: rat) powi (fl + k) = 2 powi fl * 2 powi k"
    using power_int_add [of "2 :: rat" fl k] by simp
  also have "\<dots> \<le> of_int ma / of_int mb * 2 powi k"
    by (rule mult_right_mono [OF fl(1)]) simp
  finally have lower: "(2 :: rat) powi (fl + k) \<le> y"
    by (simp only: y)
  have "of_int ma / of_int mb * 2 powi k < (2 :: rat) powi (fl + 1) * 2 powi k"
    by (rule mult_strict_right_mono [OF fl(2)]) simp
  also have "\<dots> = 2 powi (fl + 1 + k)"
    using power_int_add [of "2 :: rat" "fl + 1" k] by simp
  finally have upper: "y < 2 powi (fl + 1 + k)"
    by (simp only: y)
  have "fl + 1 + k \<le> 53"
    by (simp add: k_def q_def)
  then have "(2 :: rat) powi (fl + 1 + k) \<le> 2 powi 53"
    by (intro power_int_increasing) simp_all
  with upper have y53: "y < 2 ^ 53"
    by simp
  have y0: "0 < y"
    using assms(2,3) by (simp add: y)
  have "(of_int (shl ma k) / of_int (shl mb (- k)) :: rat) = y"
    using shl_ratio [of mb ma k] assms(3) by (simp add: y)
  then have near: "\<bar>of_int m - y\<bar> \<le> 1 / 2"
    and tie: "\<bar>of_int m - y\<bar> = 1 / 2 \<longrightarrow> even m"
    and exact: "exact_at ma qa mb qb q \<longleftrightarrow> of_int m = y"
    using rne_div_near [OF shl_pos [OF assms(3), of "- k"], of "shl ma k"]
      rne_div_tie [OF shl_pos [OF assms(3), of "- k"], of "shl ma k"]
      rne_div_exact [OF shl_pos [OF assms(3), of "- k"], of "shl ma k"]
    by (simp_all add: m_def exact_at_def k_def Let_def)
  have qe: "q = max (quotient_exponent ma qa mb qb - 52) (- 1074)"
    by (simp add: q_def quotient_exponent_def fl_def d_def Let_def)
  have m53: "m \<le> 2 ^ 53"
  proof (rule ccontr)
    assume "\<not> m \<le> 2 ^ 53"
    then have "2 ^ 53 + 1 \<le> m"
      by simp
    then have "(of_int (2 ^ 53 + 1) :: rat) \<le> of_int m"
      by (simp only: of_int_le_iff)
    then have "(2 ^ 53 + 1 :: rat) \<le> of_int m"
      by simp
    with near y53 show False
      by linarith
  qed
  have m0: "0 \<le> m"
  proof (rule ccontr)
    assume "\<not> 0 \<le> m"
    then have "m \<le> - 1"
      by simp
    then have "(of_int m :: rat) \<le> of_int (- 1)"
      by (simp only: of_int_le_iff)
    then have "(of_int m :: rat) \<le> - 1"
      by simp
    with near y0 show False
      by linarith
  qed
  have normal: "2 ^ 52 \<le> y \<and> 2 ^ 52 \<le> m" if "q \<noteq> - 1074"
  proof -
    from that have "fl + k = 52"
      by (simp add: k_def q_def max_def split: if_splits)
    with lower have y52: "2 ^ 52 \<le> y"
      by simp
    have "2 ^ 52 \<le> m"
    proof (rule ccontr)
      assume "\<not> 2 ^ 52 \<le> m"
      then have "m \<le> 2 ^ 52 - 1"
        by simp
      then have "(of_int m :: rat) \<le> of_int (2 ^ 52 - 1)"
        by (simp only: of_int_le_iff)
      then have "(of_int m :: rat) \<le> 2 ^ 52 - 1"
        by simp
      with near y52 show False
        by linarith
    qed
    with y52 show ?thesis
      by simp
  qed
  have "- 1074 \<le> q"
    by (simp add: q_def)
  with bits m0 m53 near normal tie qe exact show ?thesis
    unfolding y_def by blast
qed

lemma nearest_int:
  fixes y :: rat
  assumes "\<bar>of_int m - y\<bar> \<le> 1 / 2" "k \<noteq> m"
  shows "1 / 2 \<le> \<bar>of_int k - y\<bar>"
proof -
  from assms(2) consider "k \<le> m - 1" | "m + 1 \<le> k"
    by linarith
  then show ?thesis
  proof cases
    case 1
    then have "(of_int k :: rat) \<le> of_int (m - 1)"
      by (simp only: of_int_le_iff)
    then have "(of_int k :: rat) \<le> of_int m - 1"
      by simp
    with assms(1) show ?thesis
      by linarith
  next
    case 2
    then have "(of_int (m + 1) :: rat) \<le> of_int k"
      by (simp only: of_int_le_iff)
    then have "(of_int m + 1 :: rat) \<le> of_int k"
      by simp
    with assms(1) show ?thesis
      by linarith
  qed
qed

text \<open>
  A finite double, scaled by \<open>2 ^ - q\<close>, is either the integer \<open>m\<close> nearest to the
  scaled quotient \<open>y\<close> or at least one half away from \<open>y\<close>.
\<close>

lemma nearest_grid:
  fixes y g :: rat
  assumes near: "\<bar>of_int m - y\<bar> \<le> 1 / 2"
    and q: "q = - 1074 \<or> 2 ^ 52 \<le> y"
    and c: "0 \<le> mc" "mc < 2 ^ 53" "- 1074 \<le> qc"
    and g: "g = 1 \<or> g = - 1"
  shows "g * of_int mc * 2 powi (qc - q) = of_int m \<or>
    1 / 2 \<le> \<bar>g * of_int mc * 2 powi (qc - q) - y\<bar>"
proof (cases "q \<le> qc")
  case True
  define k where "k = (if g = 1 then 1 else - 1) * mc * 2 ^ nat (qc - q)"
  have "(2 :: rat) powi (qc - q) = 2 ^ nat (qc - q)"
    using True by (simp add: power_int_nonneg_exp)
  then have "g * of_int mc * 2 powi (qc - q) = of_int k"
    using g by (auto simp: k_def)
  then show ?thesis
    using nearest_int [OF near, of k] by auto
next
  case False
  with c(3) q have y: "2 ^ 52 \<le> y"
    by auto
  have "qc - q \<le> - 1"
    using False by simp
  then have "(2 :: rat) powi (qc - q) \<le> 2 powi (- 1)"
    by (intro power_int_increasing) simp_all
  then have p: "(2 :: rat) powi (qc - q) \<le> 1 / 2"
    by simp
  have "mc \<le> 2 ^ 53 - 1"
    using c(2) by simp
  then have "(of_int mc :: rat) \<le> of_int (2 ^ 53 - 1)"
    by (simp only: of_int_le_iff)
  then have mc: "(of_int mc :: rat) \<le> 2 ^ 53 - 1"
    by simp
  have mc0: "(0 :: rat) \<le> of_int mc"
    using c(1) by simp
  have "of_int mc * (2 :: rat) powi (qc - q) \<le> (2 ^ 53 - 1) * (1 / 2)"
    by (rule mult_mono [OF mc p]) simp_all
  then have u: "of_int mc * (2 :: rat) powi (qc - q) \<le> 2 ^ 52 - 1 / 2"
    by simp
  have u0: "0 \<le> of_int mc * (2 :: rat) powi (qc - q)"
    using mc0 by simp
  define v where "v = of_int mc * (2 :: rat) powi (qc - q)"
  have "g * of_int mc * 2 powi (qc - q) = v \<or> g * of_int mc * 2 powi (qc - q) = - v"
    using g by (auto simp: v_def)
  moreover have "v \<le> 2 ^ 52 - 1 / 2" "0 \<le> v"
    using u u0 by (simp_all add: v_def)
  ultimately have "1 / 2 \<le> \<bar>g * of_int mc * 2 powi (qc - q) - y\<bar>"
    using y by (elim disjE) simp_all
  then show ?thesis ..
qed

lemma unpack_Finite_bounds:
  assumes "unpack c = Finite u mc qc"
  shows "0 \<le> mc" "mc < 2 ^ 53" "- 1074 \<le> qc" "u = sign_bit c"
proof -
  have "fraction c < 2 ^ 52"
    by (simp add: fraction_unat)
  then have f: "int (fraction c) < 2 ^ 52"
    by (metis of_nat_less_iff of_nat_numeral of_nat_power)
  show "0 \<le> mc" "mc < 2 ^ 53" "- 1074 \<le> qc" "u = sign_bit c"
    using assms f by (auto simp: unpack_def split: if_splits)
qed

subsection \<open>Division is the division of IEEE 754\<close>

lemma finite_unpack:
  assumes "is_finite a"
  shows "\<exists>s m q. unpack a = Finite s m q \<and> 0 \<le> m \<and> (m = 0 \<longleftrightarrow> is_zero a)"
  using assms
  by (auto simp: is_finite_def is_nan_def is_infinity_def is_zero_def unpack_def)

lemma valof_Finite: "unpack a = Finite s m q \<Longrightarrow> valof a = fin_val s m q"
  by (simp add: valof_def)

lemma is_finite_unpack: "unpack a = Finite s m q \<Longrightarrow> is_finite a"
  by (auto simp: is_finite_def is_nan_def is_infinity_def unpack_def split: if_splits)

lemma unpack_even: "unpack a = Finite s m q \<Longrightarrow> even m \<longleftrightarrow> even (fraction a)"
  by (auto simp: unpack_def split: if_splits)

lemma not_finite_infinity: "\<not> is_finite (infinity s)"
  by (simp add: is_finite_def is_infinity_infinity)

text \<open>
  The quotient of two finite numbers other than zero: the significand \<open>m\<close> and the
  exponent \<open>q\<close> that the rounding has chosen, and the double returned for them.
\<close>

lemma fdiv_finite_cases:
  assumes a: "unpack a = Finite s ma qa" "0 < ma" and b: "unpack b = Finite t mb qb" "0 < mb"
  defines "x \<equiv> of_int ma / of_int mb * 2 powi (qa - qb) :: rat"
  obtains m q where
    "quotient_bits ma qa mb qb = (q + 1074) * 2 ^ 52 + m"
    "- 1074 \<le> q" "0 \<le> m" "m \<le> 2 ^ 53" "q = - 1074 \<or> 2 ^ 52 \<le> m"
    "\<bar>of_int m - x * 2 powi (- q)\<bar> \<le> 1 / 2" "q = - 1074 \<or> 2 ^ 52 \<le> x * 2 powi (- q)"
    "\<bar>of_int m - x * 2 powi (- q)\<bar> = 1 / 2 \<longrightarrow> even m"
    "q = max (quotient_exponent ma qa mb qb - 52) (- 1074)"
    "exact_at ma qa mb qb q \<longleftrightarrow> of_int m = x * 2 powi (- q)"
    "if 0x7FF0000000000000 \<le> quotient_bits ma qa mb qb then fdiv a b = infinity (s \<noteq> t)
     else valof (fdiv a b) = fin_val (s \<noteq> t) m q \<and> is_finite (fdiv a b) \<and>
       sign_bit (fdiv a b) = (s \<noteq> t) \<and>
       (\<bar>of_int m - x * 2 powi (- q)\<bar> = 1 / 2 \<longrightarrow> even (fraction (fdiv a b)))"
proof -
  let ?n = "quotient_bits ma qa mb qb"
  have r: "fdiv a b = pack (s \<noteq> t) ?n"
    using a b by (simp add: fdiv_def)
  obtain m q where mq: "?n = (q + 1074) * 2 ^ 52 + m" "- 1074 \<le> q" "0 \<le> m" "m \<le> 2 ^ 53"
    "q = - 1074 \<or> 2 ^ 52 \<le> m" "\<bar>of_int m - x * 2 powi (- q)\<bar> \<le> 1 / 2"
    "q = - 1074 \<or> 2 ^ 52 \<le> x * 2 powi (- q)"
    and tie: "\<bar>of_int m - x * 2 powi (- q)\<bar> = 1 / 2 \<longrightarrow> even m"
      "q = max (quotient_exponent ma qa mb qb - 52) (- 1074)"
      "exact_at ma qa mb qb q \<longleftrightarrow> of_int m = x * 2 powi (- q)"
    using quotient_bits_rounds [OF a(2) b(2), of qa qb] unfolding x_def by blast
  show thesis
  proof (cases "0x7FF0000000000000 \<le> ?n")
    case True
    then have "fdiv a b = infinity (s \<noteq> t)"
      by (simp add: r pack_def)
    with True have "if 0x7FF0000000000000 \<le> ?n then fdiv a b = infinity (s \<noteq> t)
      else valof (fdiv a b) = fin_val (s \<noteq> t) m q \<and> is_finite (fdiv a b) \<and>
        sign_bit (fdiv a b) = (s \<noteq> t) \<and>
        (\<bar>of_int m - x * 2 powi (- q)\<bar> = 1 / 2 \<longrightarrow> even (fraction (fdiv a b)))"
      by simp
    then show thesis
      by (rule that [OF mq tie])
  next
    case False
    have lt: "(q + 1074) * 2 ^ 52 + m < 0x7FF0000000000000"
      using False mq(1) by simp
    obtain m' q' where
      up: "unpack (zero (s \<noteq> t) + word_of_int ((q + 1074) * 2 ^ 52 + m)) = Finite (s \<noteq> t) m' q'"
      and v: "fin_val (s \<noteq> t) m' q' = fin_val (s \<noteq> t) m q"
      and ev: "even m \<longrightarrow> even m'"
      using valof_pack [OF mq(2-5) lt, of "s \<noteq> t"] by blast
    have r': "fdiv a b = zero (s \<noteq> t) + word_of_int ((q + 1074) * 2 ^ 52 + m)"
      using False by (simp add: r pack_def mq(1))
    have "valof (fdiv a b) = fin_val (s \<noteq> t) m q"
      using up v by (simp add: r' valof_def)
    moreover have "is_finite (fdiv a b)"
      using up unfolding r' by (rule is_finite_unpack)
    moreover have "sign_bit (fdiv a b) = (s \<noteq> t)"
      using unpack_Finite_bounds(4) [OF up] by (simp add: r')
    moreover have "\<bar>of_int m - x * 2 powi (- q)\<bar> = 1 / 2 \<longrightarrow> even (fraction (fdiv a b))"
      using tie ev unpack_even [OF up] by (simp add: r')
    ultimately have "if 0x7FF0000000000000 \<le> ?n then fdiv a b = infinity (s \<noteq> t)
      else valof (fdiv a b) = fin_val (s \<noteq> t) m q \<and> is_finite (fdiv a b) \<and>
        sign_bit (fdiv a b) = (s \<noteq> t) \<and>
        (\<bar>of_int m - x * 2 powi (- q)\<bar> = 1 / 2 \<longrightarrow> even (fraction (fdiv a b)))"
      using False by simp
    then show thesis
      by (rule that [OF mq tie])
  qed
qed

lemma fin_val_quotient:
  assumes "0 < ma" "0 < mb"
  shows "fin_val s ma qa / fin_val t mb qb =
    (if s \<noteq> t then - 1 else 1) * (of_int ma / of_int mb * 2 powi (qa - qb))"
  by (simp add: fin_val_def power_int_diff)

lemma abs_sign_mult:
  fixes v x :: rat
  shows "\<bar>v - (if p then - 1 else 1) * x\<bar> = \<bar>(if p then - 1 else 1) * v - x\<bar>"
  by (cases p) simp_all

lemma abs_sign_both:
  fixes v x :: rat
  shows "\<bar>(if p then - 1 else 1) * v - (if p then - 1 else 1) * x\<bar> = \<bar>v - x\<bar>"
  by (cases p) simp_all

lemma sign_mult_cancel:
  fixes v w :: rat
  shows "(if p then - 1 else 1) * v = (if p then - 1 else 1) * w \<longleftrightarrow> v = w"
  by (cases p) simp_all

text \<open>
  Rounding to nearest, ties to even: when the quotient of two finite numbers other than
  zero is finite, every other finite double is farther from the exact quotient of the
  values, or as far and then the fraction of the quotient returned is even.
\<close>

lemma fdiv_rounds_to_nearest_even:
  assumes a: "is_finite a" "\<not> is_zero a" and b: "is_finite b" "\<not> is_zero b"
    and r: "is_finite (fdiv a b)" and c: "is_finite c"
  shows "valof c = valof (fdiv a b) \<or>
    \<bar>valof (fdiv a b) - valof a / valof b\<bar> < \<bar>valof c - valof a / valof b\<bar> \<or>
    \<bar>valof (fdiv a b) - valof a / valof b\<bar> = \<bar>valof c - valof a / valof b\<bar> \<and>
      even (fraction (fdiv a b))"
proof -
  obtain s ma qa where ua: "unpack a = Finite s ma qa" and ma: "0 < ma"
    using finite_unpack [OF a(1)] a(2) by (metis order_le_less)
  obtain t mb qb where ub: "unpack b = Finite t mb qb" and mb: "0 < mb"
    using finite_unpack [OF b(1)] b(2) by (metis order_le_less)
  obtain u mc qc where uc: "unpack c = Finite u mc qc"
    using finite_unpack [OF c] by blast
  note cb = unpack_Finite_bounds [OF uc]
  define x where "x = (of_int ma / of_int mb * 2 powi (qa - qb) :: rat)"
  define p where "p = (s \<noteq> t)"
  have quot: "valof a / valof b = (if p then - 1 else 1) * x"
    using fin_val_quotient [OF ma mb] by (simp add: valof_Finite ua ub x_def p_def)
  from ua ma ub mb obtain m q where
    near': "\<bar>of_int m - x * 2 powi (- q)\<bar> \<le> 1 / 2" and
    norm': "q = - 1074 \<or> 2 ^ 52 \<le> x * 2 powi (- q)" and
    res: "if 0x7FF0000000000000 \<le> quotient_bits ma qa mb qb then fdiv a b = infinity (s \<noteq> t)
     else valof (fdiv a b) = fin_val (s \<noteq> t) m q \<and> is_finite (fdiv a b) \<and>
       sign_bit (fdiv a b) = (s \<noteq> t) \<and>
       (\<bar>of_int m - x * 2 powi (- q)\<bar> = 1 / 2 \<longrightarrow> even (fraction (fdiv a b)))"
    unfolding x_def by (rule fdiv_finite_cases)
  show ?thesis
  proof (cases "0x7FF0000000000000 \<le> quotient_bits ma qa mb qb")
    case True
    with res r show ?thesis
      by (simp add: not_finite_infinity)
  next
    case False
    define y where "y = x * 2 powi (- q)"
    define P where "P = (2 :: rat) powi q"
    from False res have val: "valof (fdiv a b) = fin_val (s \<noteq> t) m q"
      and tie: "\<bar>of_int m - y\<bar> = 1 / 2 \<longrightarrow> even (fraction (fdiv a b))"
      by (simp_all add: y_def)
    have P: "0 < P"
      by (simp add: P_def)
    have yP: "x = P * y"
      by (simp add: y_def P_def power_int_minus)
    have near: "\<bar>of_int m - y\<bar> \<le> 1 / 2" and norm: "q = - 1074 \<or> 2 ^ 52 \<le> y"
      using near' norm' by (simp_all add: y_def)
    define g :: rat where "g = (if p then - 1 else 1) * (if u then - 1 else 1)"
    define v where "v = g * of_int mc * 2 powi (qc - q)"
    have g: "g = 1 \<or> g = - 1"
      by (simp add: g_def)
    have "(2 :: rat) powi qc = P * 2 powi (qc - q)"
      using power_int_add [of "2 :: rat" q "qc - q"] by (simp add: P_def)
    then have vc: "(if p then - 1 else 1) * valof c = P * v"
      by (simp add: valof_Finite uc fin_val_def g_def v_def)
    have vr: "valof (fdiv a b) = (if p then - 1 else 1) * (P * of_int m)"
      by (simp add: val fin_val_def P_def p_def)
    have "\<bar>valof (fdiv a b) - valof a / valof b\<bar> = \<bar>P * of_int m - P * y\<bar>"
      by (simp only: vr quot abs_sign_both yP)
    also have "\<dots> = P * \<bar>of_int m - y\<bar>"
      using P by (simp add: abs_mult flip: right_diff_distrib)
    finally have dr: "\<bar>valof (fdiv a b) - valof a / valof b\<bar> = P * \<bar>of_int m - y\<bar>" .
    have "\<bar>valof c - valof a / valof b\<bar> = \<bar>P * v - P * y\<bar>"
      by (simp only: quot abs_sign_mult vc yP)
    also have "\<dots> = P * \<bar>v - y\<bar>"
      using P by (simp add: abs_mult flip: right_diff_distrib)
    finally have dc: "\<bar>valof c - valof a / valof b\<bar> = P * \<bar>v - y\<bar>" .
    from nearest_grid [OF near norm cb(1-3) g] consider "v = of_int m" | "1 / 2 \<le> \<bar>v - y\<bar>"
      unfolding v_def by blast
    then show ?thesis
    proof cases
      case 1
      then have "(if p then - 1 else 1) * valof c = (if p then - 1 else 1) * valof (fdiv a b)"
        by (simp add: vc vr)
      then have "valof c = valof (fdiv a b)"
        by (simp only: sign_mult_cancel)
      then show ?thesis ..
    next
      case 2
      show ?thesis
      proof (cases "\<bar>of_int m - y\<bar> = \<bar>v - y\<bar>")
        case True
        with 2 near have "\<bar>of_int m - y\<bar> = 1 / 2"
          by simp
        with tie True show ?thesis
          by (simp add: dr dc)
      next
        case False
        with 2 near have "\<bar>of_int m - y\<bar> < \<bar>v - y\<bar>"
          by simp
        with P show ?thesis
          by (simp add: dr dc)
      qed
    qed
  qed
qed

text \<open>
  Overflow: the quotient of two finite numbers other than zero is finite when the
  magnitude of the exact quotient is less than \<open>2 ^ 1024 - 2 ^ 970\<close>, half way between
  the largest finite double and \<open>2 ^ 1024\<close>, and infinite when it has reached it.
\<close>

lemma fdiv_overflow_threshold:
  assumes a: "is_finite a" "\<not> is_zero a" and b: "is_finite b" "\<not> is_zero b"
  shows "if \<bar>valof a / valof b\<bar> < 2 ^ 1024 - 2 ^ 970 then is_finite (fdiv a b)
    else is_infinity (fdiv a b)"
proof -
  obtain s ma qa where ua: "unpack a = Finite s ma qa" and ma: "0 < ma"
    using finite_unpack [OF a(1)] a(2) by (metis order_le_less)
  obtain t mb qb where ub: "unpack b = Finite t mb qb" and mb: "0 < mb"
    using finite_unpack [OF b(1)] b(2) by (metis order_le_less)
  define x where "x = (of_int ma / of_int mb * 2 powi (qa - qb) :: rat)"
  have x0: "0 < x"
    using ma mb by (simp add: x_def)
  have "valof a / valof b = (if s \<noteq> t then - 1 else 1) * x"
    using fin_val_quotient [OF ma mb] by (simp add: valof_Finite ua ub x_def)
  then have quot: "\<bar>valof a / valof b\<bar> = x"
    using x0 by (simp add: abs_mult)
  from ua ma ub mb obtain m q where
    n: "quotient_bits ma qa mb qb = (q + 1074) * 2 ^ 52 + m" and
    q: "- 1074 \<le> q" and m: "0 \<le> m" "m \<le> 2 ^ 53" "q = - 1074 \<or> 2 ^ 52 \<le> m" and
    near': "\<bar>of_int m - x * 2 powi (- q)\<bar> \<le> 1 / 2" and
    norm': "q = - 1074 \<or> 2 ^ 52 \<le> x * 2 powi (- q)" and
    tie': "\<bar>of_int m - x * 2 powi (- q)\<bar> = 1 / 2 \<longrightarrow> even m" and
    res: "if 0x7FF0000000000000 \<le> quotient_bits ma qa mb qb then fdiv a b = infinity (s \<noteq> t)
     else valof (fdiv a b) = fin_val (s \<noteq> t) m q \<and> is_finite (fdiv a b) \<and>
       sign_bit (fdiv a b) = (s \<noteq> t) \<and>
       (\<bar>of_int m - x * 2 powi (- q)\<bar> = 1 / 2 \<longrightarrow> even (fraction (fdiv a b)))"
    unfolding x_def by (rule fdiv_finite_cases)
  define y where "y = x * 2 powi (- q)"
  define P where "P = (2 :: rat) powi q"
  have P: "0 < P"
    by (simp add: P_def)
  have yP: "x = P * y"
    by (simp add: y_def P_def power_int_minus)
  have near: "\<bar>of_int m - y\<bar> \<le> 1 / 2" and norm: "q = - 1074 \<or> 2 ^ 52 \<le> y"
    and tie: "\<bar>of_int m - y\<bar> = 1 / 2 \<longrightarrow> even m"
    using near' norm' tie' by (simp_all add: y_def)
  have y0: "0 < y"
    using x0 by (simp add: y_def)
  show ?thesis
  proof (cases "0x7FF0000000000000 \<le> quotient_bits ma qa mb qb")
    case True
    with res have inf: "fdiv a b = infinity (s \<noteq> t)"
      by simp
    from True m(2) have q971: "971 \<le> q"
      by (simp add: n)
    with norm have y52: "2 ^ 52 \<le> y"
      by simp
    have "2 ^ 1024 - 2 ^ 970 \<le> x"
    proof (cases "q = 971")
      case True
      with \<open>0x7FF0000000000000 \<le> quotient_bits ma qa mb qb\<close> m(2) have "m = 2 ^ 53"
        by (simp add: n)
      then have "(of_int m :: rat) = 2 ^ 53"
        by simp
      with near have "2 ^ 53 - 1 / 2 \<le> y"
        by linarith
      then have "P * (2 ^ 53 - 1 / 2) \<le> P * y"
        using P by (simp only: mult_le_cancel_left_pos)
      then show ?thesis
        by (simp add: yP P_def True)
    next
      case False
      with q971 have "972 \<le> q"
        by simp
      then have "(2 :: rat) powi 972 \<le> P"
        unfolding P_def by (intro power_int_increasing) simp_all
      then have "2 powi 972 * 2 ^ 52 \<le> P * y"
        using y52 by (intro mult_mono) simp_all
      then show ?thesis
        by (simp add: yP)
    qed
    then show ?thesis
      unfolding quot by (simp add: inf is_infinity_infinity)
  next
    case False
    with res have fin: "is_finite (fdiv a b)"
      by simp
    have ym: "y \<le> of_int m + 1 / 2"
      using near by linarith
    have "(of_int m :: rat) \<le> of_int (2 ^ 53)"
      using m(2) by (simp only: of_int_le_iff)
    then have m53: "(of_int m :: rat) \<le> 2 ^ 53"
      by simp
    have q971: "q \<le> 971"
      using False m(1,3) by (auto simp: n)
    have "x < 2 ^ 1024 - 2 ^ 970"
    proof (cases "q = 971")
      case True
      with False have m': "m \<le> 2 ^ 53 - 1"
        by (simp add: n)
      have "y < 2 ^ 53 - 1 / 2"
      proof (cases "m = 2 ^ 53 - 1")
        case True
        then have "odd m"
          by simp
        with tie have "\<bar>of_int m - y\<bar> \<noteq> 1 / 2"
          by blast
        with near have "\<bar>of_int m - y\<bar> < 1 / 2"
          by simp
        moreover have "(of_int m :: rat) = 2 ^ 53 - 1"
          by (simp add: True)
        ultimately show ?thesis
          by linarith
      next
        case False
        with m' have "m \<le> 2 ^ 53 - 2"
          by simp
        then have "(of_int m :: rat) \<le> of_int (2 ^ 53 - 2)"
          by (simp only: of_int_le_iff)
        then have "(of_int m :: rat) \<le> 2 ^ 53 - 2"
          by simp
        with ym show ?thesis
          by linarith
      qed
      then have "P * y < P * (2 ^ 53 - 1 / 2)"
        using P by (simp only: mult_less_cancel_left_pos)
      then show ?thesis
        by (simp add: yP P_def True)
    next
      case False
      with q971 have "q \<le> 970"
        by simp
      then have "P \<le> 2 powi 970"
        unfolding P_def by (intro power_int_increasing) simp_all
      moreover have "y \<le> 2 ^ 53 + 1 / 2"
        using ym m53 by linarith
      ultimately have "P * y \<le> 2 powi 970 * (2 ^ 53 + 1 / 2)"
        using y0 by (intro mult_mono) simp_all
      then show ?thesis
        by (simp add: yP)
    qed
    then show ?thesis
      unfolding quot by (simp add: fin)
  qed
qed

lemma sign_bit_infinity: "sign_bit (infinity s) = s"
  by (simp add: infinity_def sign_bit_def)

lemma sign_bit_zero: "sign_bit (zero s) = s"
  by (simp add: zero_def sign_bit_def)

lemma is_zero_zero: "is_zero (zero s)"
  by (simp add: zero_def is_zero_def biased_exp_def fraction_def)

lemma not_nan_infinity: "\<not> is_nan (infinity s)"
  by (simp add: infinity_def is_nan_def biased_exp_def fraction_def)

lemma not_nan_zero: "\<not> is_nan (zero s)"
  by (simp add: zero_def is_nan_def biased_exp_def fraction_def)

lemma unpack_classes:
  obtains (nan) "unpack a = NaN" "is_nan a" "\<not> is_infinity a" "\<not> is_zero a"
  | (inf) "unpack a = Infinite (sign_bit a)" "is_infinity a" "\<not> is_nan a" "\<not> is_zero a"
  | (zero) "unpack a = Finite (sign_bit a) 0 (- 1074)" "is_zero a" "\<not> is_nan a"
      "\<not> is_infinity a"
  | (nonzero) m q where "unpack a = Finite (sign_bit a) m q" "0 < m" "\<not> is_zero a"
      "\<not> is_nan a" "\<not> is_infinity a"
proof -
  consider "biased_exp a = 2047" "fraction a \<noteq> 0" | "biased_exp a = 2047" "fraction a = 0"
    | "biased_exp a = 0" "fraction a = 0" | "biased_exp a = 0" "fraction a \<noteq> 0"
    | "biased_exp a \<noteq> 0" "biased_exp a \<noteq> 2047"
    by blast
  then show thesis
  proof cases
    case 1
    then show thesis
      by (intro nan) (simp_all add: unpack_def is_nan_def is_infinity_def is_zero_def)
  next
    case 2
    then show thesis
      by (intro inf) (simp_all add: unpack_def is_nan_def is_infinity_def is_zero_def)
  next
    case 3
    then show thesis
      by (intro zero) (simp_all add: unpack_def is_nan_def is_infinity_def is_zero_def)
  next
    case 4
    then show thesis
      by (intro nonzero [of "int (fraction a)" "- 1074"])
        (simp_all add: unpack_def is_nan_def is_infinity_def is_zero_def)
  next
    case 5
    then show thesis
      by (intro nonzero [of "2 ^ 52 + int (fraction a)" "int (biased_exp a) - 1075"])
        (simp_all add: unpack_def is_nan_def is_infinity_def is_zero_def)
  qed
qed

lemma fdiv_nonzero_finite:
  assumes "unpack a = Finite s ma qa" "0 < ma" "unpack b = Finite t mb qb" "0 < mb"
  shows "\<not> is_nan (fdiv a b)" "sign_bit (fdiv a b) = (s \<noteq> t)"
proof -
  from assms obtain m q where
    res: "if 0x7FF0000000000000 \<le> quotient_bits ma qa mb qb then fdiv a b = infinity (s \<noteq> t)
     else valof (fdiv a b) = fin_val (s \<noteq> t) m q \<and> is_finite (fdiv a b) \<and>
       sign_bit (fdiv a b) = (s \<noteq> t) \<and>
       (\<bar>of_int m - (of_int ma / of_int mb * 2 powi (qa - qb) :: rat) * 2 powi (- q)\<bar> = 1 / 2
          \<longrightarrow> even (fraction (fdiv a b)))"
    by (rule fdiv_finite_cases)
  show "\<not> is_nan (fdiv a b)" "sign_bit (fdiv a b) = (s \<noteq> t)"
    using res by (auto simp: not_nan_infinity sign_bit_infinity is_finite_def split: if_splits)
qed

text \<open>
  The special cases of IEEE 754: the quotient is a NaN when an operand is a NaN and for
  \<open>0 / 0\<close> and \<open>\<infinity> / \<infinity>\<close>, and otherwise has the sign that is the exclusive or of the
  signs of the operands; an infinity divided by a finite number and a finite number
  other than zero divided by zero are infinite; a finite number divided by an infinity
  and zero divided by a finite number other than zero are zero.
\<close>

lemma fdiv_is_nan_iff:
  "is_nan (fdiv a b) \<longleftrightarrow>
     is_nan a \<or> is_nan b \<or> (is_zero a \<and> is_zero b) \<or> (is_infinity a \<and> is_infinity b)"
proof (cases a rule: unpack_classes)
  case nan
  then show ?thesis
    by (simp add: fdiv_def is_nan_quiet_nan)
next
  case inf
  then show ?thesis
    by (cases b rule: unpack_classes)
      (simp_all add: fdiv_def is_nan_quiet_nan not_nan_infinity)
next
  case zero
  then show ?thesis
    by (cases b rule: unpack_classes)
      (simp_all add: fdiv_def is_nan_quiet_nan not_nan_zero)
next
  case a: (nonzero ma qa)
  show ?thesis
  proof (cases b rule: unpack_classes)
    case (nonzero mb qb)
    with a fdiv_nonzero_finite(1) [OF a(1,2) nonzero(1,2)] show ?thesis
      by simp
  qed (use a in \<open>simp_all add: fdiv_def is_nan_quiet_nan not_nan_zero not_nan_infinity\<close>)
qed

lemma fdiv_sign:
  assumes "\<not> is_nan (fdiv a b)"
  shows "sign_bit (fdiv a b) = (sign_bit a \<noteq> sign_bit b)"
proof (cases a rule: unpack_classes)
  case nan
  with assms show ?thesis
    by (simp add: fdiv_is_nan_iff)
next
  case inf
  with assms show ?thesis
    by (cases b rule: unpack_classes)
      (simp_all add: fdiv_is_nan_iff, simp_all add: fdiv_def sign_bit_infinity)
next
  case zero
  with assms show ?thesis
    by (cases b rule: unpack_classes)
      (simp_all add: fdiv_is_nan_iff, simp_all add: fdiv_def sign_bit_zero)
next
  case a: (nonzero ma qa)
  show ?thesis
  proof (cases b rule: unpack_classes)
    case (nonzero mb qb)
    then show ?thesis
      using fdiv_nonzero_finite(2) [OF a(1,2) nonzero(1,2)] by simp
  qed (use a assms in \<open>simp_all add: fdiv_is_nan_iff, simp_all add: fdiv_def sign_bit_zero sign_bit_infinity\<close>)
qed

lemma fdiv_special:
  "is_infinity a \<Longrightarrow> is_finite b \<Longrightarrow> is_infinity (fdiv a b)"
  "is_finite a \<Longrightarrow> \<not> is_zero a \<Longrightarrow> is_zero b \<Longrightarrow> is_infinity (fdiv a b)"
  "is_finite a \<Longrightarrow> is_infinity b \<Longrightarrow> is_zero (fdiv a b)"
  "is_zero a \<Longrightarrow> is_finite b \<Longrightarrow> \<not> is_zero b \<Longrightarrow> is_zero (fdiv a b)"
proof -
  show "is_infinity a \<Longrightarrow> is_finite b \<Longrightarrow> is_infinity (fdiv a b)"
    by (cases a rule: unpack_classes; cases b rule: unpack_classes)
      (simp_all add: fdiv_def is_finite_def is_infinity_infinity)
  show "is_finite a \<Longrightarrow> \<not> is_zero a \<Longrightarrow> is_zero b \<Longrightarrow> is_infinity (fdiv a b)"
    by (cases a rule: unpack_classes; cases b rule: unpack_classes)
      (simp_all add: fdiv_def is_finite_def is_infinity_infinity)
  show "is_finite a \<Longrightarrow> is_infinity b \<Longrightarrow> is_zero (fdiv a b)"
    by (cases a rule: unpack_classes; cases b rule: unpack_classes)
      (simp_all add: fdiv_def is_finite_def is_zero_zero)
  show "is_zero a \<Longrightarrow> is_finite b \<Longrightarrow> \<not> is_zero b \<Longrightarrow> is_zero (fdiv a b)"
    by (cases a rule: unpack_classes; cases b rule: unpack_classes)
      (simp_all add: fdiv_def is_finite_def is_zero_zero)
qed

subsection \<open>Division in the floating-point environment\<close>

text \<open>In the default rounding mode the division is the one of the sections above.\<close>

lemma quotient_bits_in_nearest:
  "quotient_bits_in ToNearest neg ma qa mb qb = quotient_bits ma qa mb qb"
  by (simp add: quotient_bits_in_def quotient_bits_def quotient_exponent_def rounded_at_def Let_def)

lemma pack_in_nearest: "pack_in ToNearest s n = pack s n"
  by (simp add: pack_in_def pack_def)

lemma fdiv_in_nearest: "fdiv_in ToNearest a b = fdiv a b"
  by (cases "unpack a"; cases "unpack b")
    (simp_all add: fdiv_in_def fdiv_def quotient_bits_in_nearest pack_in_nearest)

text \<open>
  \<open>1.0 / 3.0\<close> and \<open>- 1.0 / 3.0\<close> in the four modes, an overflow and an underflow in the
  modes that do not round them to an infinity and to zero, and the flags raised.
\<close>

lemma quotient_bits_in_1_3:
  "quotient_bits_in ToNearest False 4503599627370496 (- 52) 6755399441055744 (- 51) = 0x3FD5555555555555"
  "quotient_bits_in Upward False 4503599627370496 (- 52) 6755399441055744 (- 51) = 0x3FD5555555555556"
  "quotient_bits_in Downward False 4503599627370496 (- 52) 6755399441055744 (- 51) = 0x3FD5555555555555"
  "quotient_bits_in TowardZero False 4503599627370496 (- 52) 6755399441055744 (- 51) = 0x3FD5555555555555"
  "quotient_bits_in Upward True 4503599627370496 (- 52) 6755399441055744 (- 51) = 0x3FD5555555555555"
  "quotient_bits_in Downward True 4503599627370496 (- 52) 6755399441055744 (- 51) = 0x3FD5555555555556"
  by code_simp+

lemma fdiv_in_1_3:
  "fdiv_in ToNearest 0x3FF0000000000000 0x4008000000000000 = 0x3FD5555555555555"
  "fdiv_in Upward 0x3FF0000000000000 0x4008000000000000 = 0x3FD5555555555556"
  "fdiv_in Downward 0x3FF0000000000000 0x4008000000000000 = 0x3FD5555555555555"
  "fdiv_in TowardZero 0x3FF0000000000000 0x4008000000000000 = 0x3FD5555555555555"
  "fdiv_in Upward 0xBFF0000000000000 0x4008000000000000 = 0xBFD5555555555555"
  "fdiv_in Downward 0xBFF0000000000000 0x4008000000000000 = 0xBFD5555555555556"
  by (simp_all add: fdiv_in_def unpack_1 unpack_neg_1 unpack_3 quotient_bits_in_1_3 pack_in_def
      zero_def)

text \<open>
  \<open>0x3FD5555555555555\<close> and \<open>0x3FD5555555555556\<close> are the doubles next below and next above
  one third.
\<close>

lemma unpack_third:
  "unpack 0x3FD5555555555555 = Finite False 6004799503160661 (- 54)"
  "unpack 0x3FD5555555555556 = Finite False 6004799503160662 (- 54)"
  by (simp_all add: field_defs)

lemma valof_third:
  "valof 0x3FD5555555555555 < 1 / 3" "1 / 3 < valof 0x3FD5555555555556"
  by (simp_all add: valof_def fin_val_def unpack_third)

lemma quotient_bits_in_overflow_modes:
  "0x7FF0000000000000 \<le> quotient_bits_in ToNearest False 5010420900022432 971 2024022533073106 (- 1074)"
  "0x7FF0000000000000 \<le> quotient_bits_in Upward False 5010420900022432 971 2024022533073106 (- 1074)"
  "0x7FF0000000000000 \<le> quotient_bits_in Downward False 5010420900022432 971 2024022533073106 (- 1074)"
  "0x7FF0000000000000 \<le> quotient_bits_in TowardZero False 5010420900022432 971 2024022533073106 (- 1074)"
  by code_simp+

lemma quotient_bits_in_overflow:
  "0x7FF0000000000000 \<le> quotient_bits_in mode False 5010420900022432 971 2024022533073106 (- 1074)"
  by (cases mode) (simp_all only: quotient_bits_in_overflow_modes)

lemma fdiv_in_1e308_1e_308:
  "fdiv_in Upward 0x7FE1CCF385EBC8A0 0x000730D67819E8D2 = 0x7FF0000000000000"
  "fdiv_in Downward 0x7FE1CCF385EBC8A0 0x000730D67819E8D2 = 0x7FEFFFFFFFFFFFFF"
  "fdiv_in TowardZero 0x7FE1CCF385EBC8A0 0x000730D67819E8D2 = 0x7FEFFFFFFFFFFFFF"
  by (simp_all add: fdiv_in_def unpack_1e308 unpack_1e_308 quotient_bits_in_overflow pack_in_def
      infinity_def max_finite_def)

lemma quotient_bits_in_underflow:
  "quotient_bits_in Upward False 2024022533073106 (- 1074) 5010420900022432 971 = 1"
  "quotient_bits_in Downward False 2024022533073106 (- 1074) 5010420900022432 971 = 0"
  by code_simp+

lemma fdiv_in_1e_308_1e308:
  "fdiv_in Upward 0x000730D67819E8D2 0x7FE1CCF385EBC8A0 = 1"
  "fdiv_in Downward 0x000730D67819E8D2 0x7FE1CCF385EBC8A0 = 0"
  by (simp_all add: fdiv_in_def unpack_1e308 unpack_1e_308 quotient_bits_in_underflow pack_in_def
      zero_def)

lemma quotient_raises_modes:
  "quotient_raises ToNearest False 4503599627370496 (- 52) 6755399441055744 (- 51) = {Inexact}"
  "quotient_raises ToNearest False 5629499534213120 (- 49) 4503599627370496 (- 51) = {}"
  "quotient_raises Upward False 5629499534213120 (- 49) 4503599627370496 (- 51) = {}"
  "quotient_raises Downward False 5629499534213120 (- 49) 4503599627370496 (- 51) = {}"
  "quotient_raises TowardZero False 5629499534213120 (- 49) 4503599627370496 (- 51) = {}"
  "quotient_raises ToNearest False 5010420900022432 971 2024022533073106 (- 1074) = {Overflow, Inexact}"
  "quotient_raises Upward False 5010420900022432 971 2024022533073106 (- 1074) = {Overflow, Inexact}"
  "quotient_raises Downward False 5010420900022432 971 2024022533073106 (- 1074) = {Overflow, Inexact}"
  "quotient_raises TowardZero False 5010420900022432 971 2024022533073106 (- 1074) = {Overflow, Inexact}"
  "quotient_raises ToNearest False 2024022533073106 (- 1074) 5010420900022432 971 = {Underflow, Inexact}"
  "quotient_raises Upward False 2024022533073106 (- 1074) 5010420900022432 971 = {Underflow, Inexact}"
  "quotient_raises Downward False 2024022533073106 (- 1074) 5010420900022432 971 = {Underflow, Inexact}"
  "quotient_raises TowardZero False 2024022533073106 (- 1074) 5010420900022432 971 = {Underflow, Inexact}"
  "quotient_raises ToNearest False 4503599627370496 (- 1074) 4503599627370496 (- 51) = {}"
  "quotient_raises Upward False 4503599627370496 (- 1074) 4503599627370496 (- 51) = {}"
  "quotient_raises Downward False 4503599627370496 (- 1074) 4503599627370496 (- 51) = {}"
  "quotient_raises TowardZero False 4503599627370496 (- 1074) 4503599627370496 (- 51) = {}"
  "quotient_raises ToNearest False 3 (- 1074) 4503599627370496 (- 51) = {Underflow, Inexact}"
  "quotient_raises Upward False 3 (- 1074) 4503599627370496 (- 51) = {Underflow, Inexact}"
  "quotient_raises Downward False 3 (- 1074) 4503599627370496 (- 51) = {Underflow, Inexact}"
  "quotient_raises TowardZero False 3 (- 1074) 4503599627370496 (- 51) = {Underflow, Inexact}"
  by code_simp+

lemma quotient_raises_values:
  "quotient_raises ToNearest False 4503599627370496 (- 52) 6755399441055744 (- 51) = {Inexact}"
  "quotient_raises mode False 5629499534213120 (- 49) 4503599627370496 (- 51) = {}"
  "quotient_raises mode False 5010420900022432 971 2024022533073106 (- 1074) = {Overflow, Inexact}"
  "quotient_raises mode False 2024022533073106 (- 1074) 5010420900022432 971 = {Underflow, Inexact}"
  "quotient_raises mode False 4503599627370496 (- 1074) 4503599627370496 (- 51) = {}"
  "quotient_raises mode False 3 (- 1074) 4503599627370496 (- 51) = {Underflow, Inexact}"
  by (simp only: quotient_raises_modes, (cases mode; simp only: quotient_raises_modes)+)

lemma quotient_raises_1_3_upward:
  "quotient_raises Upward False 4503599627370496 (- 52) 6755399441055744 (- 51) = {Inexact}"
  by code_simp

lemma not_signaling:
  "\<not> is_signaling 0" "\<not> is_signaling 0x3FF0000000000000" "\<not> is_signaling 0x4000000000000000"
  "\<not> is_signaling 0x4008000000000000" "\<not> is_signaling 0x4024000000000000"
  "\<not> is_signaling 0x7FE1CCF385EBC8A0" "\<not> is_signaling 0x000730D67819E8D2"
  "\<not> is_signaling 0x0010000000000000" "\<not> is_signaling 3"
  "\<not> is_signaling 0x7FF0000000000000" "\<not> is_signaling quiet_nan"
  by (simp_all add: is_signaling_def is_nan_def biased_exp_def fraction_def quiet_nan_def)

lemma fdiv_raises_values:
  "fdiv_raises ToNearest 0x3FF0000000000000 0x4008000000000000 = {Inexact}"
  "fdiv_raises mode 0x4024000000000000 0x4000000000000000 = {}"
  "fdiv_raises mode 0x7FE1CCF385EBC8A0 0x000730D67819E8D2 = {Overflow, Inexact}"
  "fdiv_raises mode 0x000730D67819E8D2 0x7FE1CCF385EBC8A0 = {Underflow, Inexact}"
  "fdiv_raises mode 0x0010000000000000 0x4000000000000000 = {}"
  "fdiv_raises mode 3 0x4000000000000000 = {Underflow, Inexact}"
  "fdiv_raises mode 0x3FF0000000000000 0 = {DivByZero}"
  "fdiv_raises mode 0 0 = {Invalid}"
  "fdiv_raises mode 0x7FF0000000000000 0x7FF0000000000000 = {Invalid}"
  "fdiv_raises mode 0x7FF0000000000001 0x3FF0000000000000 = {Invalid}"
  "fdiv_raises mode quiet_nan 0x3FF0000000000000 = {}"
  by (simp_all add: fdiv_raises_def not_signaling quotient_raises_values unpack_1 unpack_2 unpack_3
      unpack_10 unpack_1e308 unpack_1e_308 unpack_min_normal unpack_subnormal_3 unpack_pos_zero
      unpack_quiet_nan unpack_infinity [of False, unfolded infinity_def, simplified])
    (simp_all add: is_signaling_def is_nan_def biased_exp_def fraction_def)

text \<open>
  Which operands raise the invalid flag and the division by zero flag, and, in the
  default rounding mode, that overflow is raised exactly when finite operands other than
  zero have an infinite quotient.
\<close>

lemma is_signaling_nan: "is_signaling a \<Longrightarrow> is_nan a"
  by (simp add: is_signaling_def)

lemma quotient_raises_subset:
  "quotient_raises mode neg ma qa mb qb \<subseteq> {Overflow, Underflow, Inexact}"
  by (simp add: quotient_raises_def Let_def)

lemma quotient_raises_overflow:
  "Overflow \<in> quotient_raises mode neg ma qa mb qb \<longleftrightarrow>
     0x7FF0000000000000 \<le> quotient_bits_in mode neg ma qa mb qb"
  by (simp add: quotient_raises_def Let_def)

lemma fdiv_raises_invalid_iff:
  "Invalid \<in> fdiv_raises mode a b \<longleftrightarrow>
     is_signaling a \<or> is_signaling b \<or> (is_zero a \<and> is_zero b) \<or>
     (is_infinity a \<and> is_infinity b)"
proof (cases "is_signaling a \<or> is_signaling b")
  case True
  then show ?thesis
    by (auto simp: fdiv_raises_def)
next
  case False
  have q: "Invalid \<notin> quotient_raises mode neg ma qa mb qb" for neg ma qa mb qb
    using quotient_raises_subset [of mode neg ma qa mb qb] by auto
  from False show ?thesis
    by (cases a rule: unpack_classes; cases b rule: unpack_classes)
      (simp_all add: fdiv_raises_def q)
qed

lemma fdiv_raises_divbyzero_iff:
  "DivByZero \<in> fdiv_raises mode a b \<longleftrightarrow>
     \<not> is_signaling b \<and> is_finite a \<and> \<not> is_zero a \<and> is_zero b"
proof (cases "is_signaling a \<or> is_signaling b")
  case True
  then show ?thesis
    using is_signaling_nan [of a] by (auto simp: fdiv_raises_def is_finite_def)
next
  case False
  have q: "DivByZero \<notin> quotient_raises mode neg ma qa mb qb" for neg ma qa mb qb
    using quotient_raises_subset [of mode neg ma qa mb qb] by auto
  from False show ?thesis
    by (cases a rule: unpack_classes; cases b rule: unpack_classes)
      (simp_all add: fdiv_raises_def is_finite_def q)
qed

lemma fdiv_raises_overflow_iff:
  "Overflow \<in> fdiv_raises ToNearest a b \<longleftrightarrow>
     is_finite a \<and> \<not> is_zero a \<and> is_finite b \<and> \<not> is_zero b \<and> is_infinity (fdiv a b)"
proof (cases "is_signaling a \<or> is_signaling b")
  case True
  then show ?thesis
    using is_signaling_nan [of a] is_signaling_nan [of b] by (auto simp: fdiv_raises_def is_finite_def)
next
  case False
  show ?thesis
  proof (cases a rule: unpack_classes)
    case a: (nonzero ma qa)
    show ?thesis
    proof (cases b rule: unpack_classes)
      case b: (nonzero mb qb)
      from a(1,2) b(1,2) obtain m q where
        res: "if 0x7FF0000000000000 \<le> quotient_bits ma qa mb qb
          then fdiv a b = infinity (sign_bit a \<noteq> sign_bit b)
          else valof (fdiv a b) = fin_val (sign_bit a \<noteq> sign_bit b) m q \<and> is_finite (fdiv a b) \<and>
            sign_bit (fdiv a b) = (sign_bit a \<noteq> sign_bit b) \<and>
            (\<bar>of_int m - (of_int ma / of_int mb * 2 powi (qa - qb) :: rat) * 2 powi (- q)\<bar> = 1 / 2
               \<longrightarrow> even (fraction (fdiv a b)))"
        by (rule fdiv_finite_cases)
      have "Overflow \<in> fdiv_raises ToNearest a b \<longleftrightarrow> 0x7FF0000000000000 \<le> quotient_bits ma qa mb qb"
        using False a b
        by (simp add: fdiv_raises_def quotient_raises_overflow quotient_bits_in_nearest)
      also have "\<dots> \<longleftrightarrow> is_infinity (fdiv a b)"
        using res by (auto simp: is_infinity_infinity is_finite_def split: if_splits)
      finally show ?thesis
        using a b by (simp add: is_finite_def)
    qed (use False a in \<open>simp_all add: fdiv_raises_def is_finite_def\<close>)
  qed (use False in \<open>cases b rule: unpack_classes; simp add: fdiv_raises_def is_finite_def\<close>)+
qed

lemma quotient_raises_inexact:
  "Inexact \<in> quotient_raises mode neg ma qa mb qb \<longleftrightarrow>
     0x7FF0000000000000 \<le> quotient_bits_in mode neg ma qa mb qb \<or>
     \<not> exact_at ma qa mb qb (max (quotient_exponent ma qa mb qb - 52) (- 1074))"
  by (simp add: quotient_raises_def Let_def)

text \<open>
  In the default rounding mode the quotient of finite operands other than zero raises
  the inexact flag exactly when it is not the exact quotient of their values.
\<close>

lemma fdiv_raises_inexact_iff:
  assumes a: "is_finite a" "\<not> is_zero a" and b: "is_finite b" "\<not> is_zero b"
  shows "Inexact \<in> fdiv_raises ToNearest a b \<longleftrightarrow>
    is_infinity (fdiv a b) \<or> valof (fdiv a b) \<noteq> valof a / valof b"
proof -
  obtain s ma qa where ua: "unpack a = Finite s ma qa" and ma: "0 < ma"
    using finite_unpack [OF a(1)] a(2) by (metis order_le_less)
  obtain t mb qb where ub: "unpack b = Finite t mb qb" and mb: "0 < mb"
    using finite_unpack [OF b(1)] b(2) by (metis order_le_less)
  have ns: "\<not> is_signaling a" "\<not> is_signaling b"
    using a(1) b(1) is_signaling_nan by (auto simp: is_finite_def)
  define x where "x = (of_int ma / of_int mb * 2 powi (qa - qb) :: rat)"
  define p where "p = (s \<noteq> t)"
  have quot: "valof a / valof b = (if p then - 1 else 1) * x"
    using fin_val_quotient [OF ma mb] by (simp add: valof_Finite ua ub x_def p_def)
  from ua ma ub mb obtain m q where
    qe: "q = max (quotient_exponent ma qa mb qb - 52) (- 1074)" and
    exact: "exact_at ma qa mb qb q \<longleftrightarrow> of_int m = x * 2 powi (- q)" and
    res: "if 0x7FF0000000000000 \<le> quotient_bits ma qa mb qb then fdiv a b = infinity (s \<noteq> t)
     else valof (fdiv a b) = fin_val (s \<noteq> t) m q \<and> is_finite (fdiv a b) \<and>
       sign_bit (fdiv a b) = (s \<noteq> t) \<and>
       (\<bar>of_int m - x * 2 powi (- q)\<bar> = 1 / 2 \<longrightarrow> even (fraction (fdiv a b)))"
    unfolding x_def by (rule fdiv_finite_cases)
  have raises: "Inexact \<in> fdiv_raises ToNearest a b \<longleftrightarrow>
      0x7FF0000000000000 \<le> quotient_bits ma qa mb qb \<or> \<not> exact_at ma qa mb qb q"
    using ns ma mb
    by (simp add: fdiv_raises_def ua ub quotient_raises_inexact quotient_bits_in_nearest qe)
  show ?thesis
  proof (cases "0x7FF0000000000000 \<le> quotient_bits ma qa mb qb")
    case True
    with res have "is_infinity (fdiv a b)"
      by (simp add: is_infinity_infinity)
    with True raises show ?thesis
      by simp
  next
    case False
    with res have val: "valof (fdiv a b) = fin_val (s \<noteq> t) m q" and fin: "\<not> is_infinity (fdiv a b)"
      by (simp_all add: is_finite_def)
    have P: "(0 :: rat) < 2 powi q"
      by simp
    have "valof (fdiv a b) = (if p then - 1 else 1) * (of_int m * 2 powi q)"
      by (simp add: val fin_val_def p_def)
    then have "valof (fdiv a b) = valof a / valof b \<longleftrightarrow> of_int m * 2 powi q = x"
      by (simp only: quot sign_mult_cancel)
    also have "\<dots> \<longleftrightarrow> of_int m = x * 2 powi (- q)"
      using P by (auto simp: power_int_minus field_simps)
    finally show ?thesis
      using False raises exact fin by simp
  qed
qed


subsection \<open>add and multiply\<close>

text \<open>Beyond the range of \<^verbatim>\<open>int\<close> the results wrap around.\<close>

lemma add_wraps: "sint (fst (add 0x7FFFFFFF 1 w)) = - 2147483648"
  by (simp add: add_def)

lemma multiply_wraps: "sint (fst (multiply 65536 65536 w)) = 0"
  by (simp add: multiply_def)

text \<open>
  C3: for all integers \<open>a\<close> and \<open>b\<close>, \<open>add a b\<close> returns the sum \<open>a + b\<close> of the 32-bit
  representation: the two's complement reduction of the sum of the signed values, and
  that sum itself when it is in the range of \<^verbatim>\<open>int\<close>. In particular \<open>add 5 3\<close> returns 8.
\<close>

theorem add_returns_sum:
  "fst (add a b w) = a + b \<and>
   sint (fst (add a b w)) = signed_take_bit 31 (sint a + sint b) \<and>
   (- (2 ^ 31) \<le> sint a + sint b \<and> sint a + sint b < 2 ^ 31 \<longrightarrow>
      sint (fst (add a b w)) = sint a + sint b) \<and>
   fst (add 5 3 w) = 8"
  by (simp add: add_def sint_word_ariths signed_take_bit_int_eq_self)

theorem add_returns_sum_witness:
  "- (2 ^ 31) \<le> sint (- 7 :: c_int) + sint (12 :: c_int) \<and>
   sint (- 7 :: c_int) + sint (12 :: c_int) < 2 ^ 31 \<and>
   sint (fst (add (- 7) 12 \<lparr>stdout = []\<rparr>)) = 5"
  using add_returns_sum [of "- 7" 12 "\<lparr>stdout = []\<rparr>"] by simp

text \<open>
  C4: for all integers \<open>a\<close> and \<open>b\<close>, \<open>multiply a b\<close> returns the product \<open>a * b\<close> of the
  32-bit representation: the two's complement reduction of the product of the signed
  values, and that product itself when it is in the range of \<^verbatim>\<open>int\<close>. In particular
  \<open>multiply 4 7\<close> returns 28.
\<close>

theorem multiply_returns_product:
  "fst (multiply a b w) = a * b \<and>
   sint (fst (multiply a b w)) = signed_take_bit 31 (sint a * sint b) \<and>
   (- (2 ^ 31) \<le> sint a * sint b \<and> sint a * sint b < 2 ^ 31 \<longrightarrow>
      sint (fst (multiply a b w)) = sint a * sint b) \<and>
   fst (multiply 4 7 w) = 28"
  by (simp add: multiply_def sint_word_ariths signed_take_bit_int_eq_self)

theorem multiply_returns_product_witness:
  "- (2 ^ 31) \<le> sint (- 6 :: c_int) * sint (9 :: c_int) \<and>
   sint (- 6 :: c_int) * sint (9 :: c_int) < 2 ^ 31 \<and>
   sint (fst (multiply (- 6) 9 \<lparr>stdout = []\<rparr>)) = - 54"
  using multiply_returns_product [of "- 6" 9 "\<lparr>stdout = []\<rparr>"] by simp

text \<open>C5: \<open>add\<close> is commutative: \<open>add a b\<close> and \<open>add b a\<close> return the same.\<close>

theorem add_commutative: "add a b w = add b a w"
  by (simp add: add_def add.commute)

text \<open>C6: \<open>multiply\<close> is commutative: \<open>multiply a b\<close> and \<open>multiply b a\<close> return the same.\<close>

theorem multiply_commutative: "multiply a b w = multiply b a w"
  by (simp add: multiply_def mult.commute)

subsection \<open>divide\_safe\<close>

text \<open>
  C1: for every double \<open>a\<close> and every double \<open>b\<close> that is not a zero, \<open>divide_safe a b\<close>
  returns the floating-point quotient of \<open>a\<close> by \<open>b\<close>; in particular
  \<open>divide_safe 10.0 2.0\<close> returns \<open>5.0\<close>.
\<close>

theorem divide_safe_quotient:
  "(\<not> is_zero b \<longrightarrow> divide_safe a b w = (fdiv a b, w)) \<and>
   divide_safe 0x4024000000000000 0x4000000000000000 w = (0x4014000000000000, w)"
proof -
  have "\<not> is_zero 0x4000000000000000"
    by (simp add: is_zero_def biased_exp_def)
  then show ?thesis
    by (simp add: divide_safe_def feq_zero_iff fdiv_10_2)
qed

theorem divide_safe_quotient_witness:
  "\<not> is_zero 0x4008000000000000 \<and>
   divide_safe 0x3FF0000000000000 0x4008000000000000 \<lparr>stdout = []\<rparr> =
     (0x3FD5555555555555, \<lparr>stdout = []\<rparr>)"
proof -
  have nz: "\<not> is_zero 0x4008000000000000"
    by (simp add: is_zero_def biased_exp_def)
  with divide_safe_quotient [of "0x4008000000000000" "0x3FF0000000000000" "\<lparr>stdout = []\<rparr>"]
  show ?thesis
    by (simp add: fdiv_1_3)
qed

text \<open>
  C2: for every double \<open>a\<close>, \<open>divide_safe a 0.0\<close> returns the fallback value \<open>0.0\<close>,
  which is neither a NaN nor an infinity, and leaves the state as it was; in particular
  \<open>divide_safe 5.0 0.0\<close> returns \<open>0.0\<close>.
\<close>

theorem divide_safe_zero:
  "divide_safe a 0 w = (0, w) \<and>
   \<not> is_nan (fst (divide_safe a 0 w)) \<and>
   \<not> is_infinity (fst (divide_safe a 0 w)) \<and>
   divide_safe 0x4014000000000000 0 w = (0, w)"
proof -
  have "is_zero 0"
    by (simp add: is_zero_def biased_exp_def fraction_def)
  then have "divide_safe x 0 w = (0, w)" for x
    by (simp add: divide_safe_def feq_zero_iff)
  then show ?thesis
    by (simp add: is_nan_def is_infinity_def biased_exp_def)
qed

text \<open>
  C9: for every double \<open>a\<close>, \<open>divide_safe a (-0.0)\<close> returns the fallback value \<open>0.0\<close>:
  the negative zero is equal to \<open>0.0\<close> under \<^verbatim>\<open>==\<close> and takes the fallback branch, where
  the division would have given an infinity or a NaN.
\<close>

theorem divide_safe_negative_zero:
  "feq 0x8000000000000000 0 \<and>
   divide_safe a 0x8000000000000000 w = (0, w) \<and>
   (is_nan (fdiv a 0x8000000000000000) \<or> is_infinity (fdiv a 0x8000000000000000))"
proof -
  have z: "is_zero 0x8000000000000000"
    by (simp add: is_zero_def biased_exp_def fraction_def)
  then show ?thesis
    using fdiv_by_zero [OF z, of a] by (simp add: divide_safe_def feq_zero_iff)
qed

text \<open>
  C10: the guard does not exclude every result that is not finite. A NaN denominator is
  not equal to \<open>0.0\<close>, and the quotient returned for it is a NaN; \<open>1.0e-308\<close> is not
  equal to \<open>0.0\<close> either, and \<open>divide_safe 1.0e308 1.0e-308\<close> returns the positive
  infinity.
\<close>

theorem divide_safe_not_finite:
  "\<not> feq quiet_nan 0 \<and> is_nan (fst (divide_safe a quiet_nan w)) \<and>
   \<not> feq 0x000730D67819E8D2 0 \<and>
   fst (divide_safe 0x7FE1CCF385EBC8A0 0x000730D67819E8D2 w) = 0x7FF0000000000000 \<and>
   is_infinity (fst (divide_safe 0x7FE1CCF385EBC8A0 0x000730D67819E8D2 w)) \<and>
   (\<exists>x y. \<not> feq y 0 \<and>
      (is_nan (fst (divide_safe x y w)) \<or> is_infinity (fst (divide_safe x y w))))"
proof -
  have n: "\<not> feq quiet_nan 0"
    using nan_not_feq [OF is_nan_quiet_nan] by simp
  have nan: "is_nan (fst (divide_safe a quiet_nan w))"
    by (simp add: divide_safe_def n fdiv_nan is_nan_quiet_nan)
  have t: "\<not> feq 0x000730D67819E8D2 0"
    by (simp add: feq_zero_iff is_zero_def fraction_def)
  have inf: "fst (divide_safe 0x7FE1CCF385EBC8A0 0x000730D67819E8D2 w) = 0x7FF0000000000000"
    by (simp add: divide_safe_def t fdiv_1e308_1e_308)
  have "is_infinity 0x7FF0000000000000"
    using is_infinity_infinity [of False] by (simp add: infinity_def)
  with n nan t inf show ?thesis
    by auto
qed

subsection \<open>The effects of the three functions\<close>

lemma raise_frame:
  "stdout (raise xs s) = stdout s" "rounding (raise xs s) = rounding s"
  "flags (raise xs s) = flags s \<union> xs"
  by (simp_all add: raise_def)

text \<open>
  What \<open>divide_safe\<close> returns and raises: nothing but its arguments and the rounding mode
  are read, and the flags raised are added to those that were set.
\<close>

lemma divide_safe_fenv_eq:
  "divide_safe_fenv a b s =
    (if feq b 0 then 0 else fdiv_in (rounding s) a b,
     raise (if feq b 0 then feq_raises b 0
            else feq_raises b 0 \<union> fdiv_raises (rounding s) a b) s)"
  by (simp add: divide_safe_fenv_def feq_fenv_def fdiv_fenv_def raise_def Un_assoc)

text \<open>In the default rounding mode \<open>divide_safe\<close> returns what it does above.\<close>

lemma divide_safe_fenv_nearest:
  "rounding s = ToNearest \<Longrightarrow> fst (divide_safe_fenv a b s) = fst (divide_safe a b w)"
  by (simp add: divide_safe_fenv_eq divide_safe_def fdiv_in_nearest)

text \<open>
  C8, as the code has it: \<open>add\<close> and \<open>multiply\<close> are deterministic and free of side
  effects: a call leaves the whole state as it was, the floating-point environment
  included, and returns the same in every state. \<open>divide_safe\<close> leaves the standard
  output and the rounding mode as they were and clears no status flag, but it may raise
  flags; what it returns and what it raises are the same in any two states with the same
  rounding mode, and in the default rounding mode it returns what the translation
  without the environment returns.
\<close>

theorem math_ops_effects:
  "add_fenv x y s = (fst (add_fenv x y s'), s) \<and>
   multiply_fenv x y s = (fst (multiply_fenv x y s'), s) \<and>
   stdout (snd (divide_safe_fenv a b s)) = stdout s \<and>
   rounding (snd (divide_safe_fenv a b s)) = rounding s \<and>
   flags s \<subseteq> flags (snd (divide_safe_fenv a b s)) \<and>
   (rounding s = rounding s' \<longrightarrow>
      fst (divide_safe_fenv a b s) = fst (divide_safe_fenv a b s') \<and>
      flags (snd (divide_safe_fenv a b s)) =
        flags s \<union> flags (snd (divide_safe_fenv a b (s'\<lparr>flags := {}\<rparr>)))) \<and>
   (rounding s = ToNearest \<longrightarrow> fst (divide_safe_fenv a b s) = fst (divide_safe a b w))"
  by (simp add: add_fenv_def multiply_fenv_def divide_safe_fenv_eq raise_frame
      divide_safe_def fdiv_in_nearest)

theorem math_ops_effects_witness:
  "rounding \<lparr>stdout = [], rounding = ToNearest, flags = {}\<rparr> =
     rounding \<lparr>stdout = [(''%d'', [IntArg 8])], rounding = ToNearest, flags = {Overflow}\<rparr> \<and>
   rounding \<lparr>stdout = [], rounding = ToNearest, flags = {}\<rparr> = ToNearest \<and>
   fst (divide_safe_fenv 0x3FF0000000000000 0x4008000000000000
          \<lparr>stdout = [], rounding = ToNearest, flags = {}\<rparr>) =
     fst (divide_safe_fenv 0x3FF0000000000000 0x4008000000000000
          \<lparr>stdout = [(''%d'', [IntArg 8])], rounding = ToNearest, flags = {Overflow}\<rparr>) \<and>
   fst (divide_safe_fenv 0x3FF0000000000000 0x4008000000000000
          \<lparr>stdout = [], rounding = ToNearest, flags = {}\<rparr>) =
     fst (divide_safe 0x3FF0000000000000 0x4008000000000000 \<lparr>stdout = []\<rparr>)"
proof -
  note effects = math_ops_effects [where x = 0 and y = 0
      and s = "\<lparr>stdout = [], rounding = ToNearest, flags = {}\<rparr>"
      and s' = "\<lparr>stdout = [(''%d'', [IntArg 8])], rounding = ToNearest, flags = {Overflow}\<rparr>"
      and a = "0x3FF0000000000000" and b = "0x4008000000000000" and w = "\<lparr>stdout = []\<rparr>"]
  have "rounding \<lparr>stdout = [], rounding = ToNearest, flags = {}\<rparr> =
     rounding \<lparr>stdout = [(''%d'', [IntArg 8])], rounding = ToNearest, flags = {Overflow}\<rparr>"
    and "rounding \<lparr>stdout = [], rounding = ToNearest, flags = {}\<rparr> = ToNearest"
    by simp_all
  with effects show ?thesis
    by blast
qed

text \<open>
  C8 as it is stated fails for \<open>divide_safe\<close>: \<open>divide_safe 1.0 3.0\<close> writes state, the
  inexact flag, and the result it returns depends on state, the rounding mode.
\<close>

theorem math_ops_pure_counterexample:
  "divide_safe_fenv 0x3FF0000000000000 0x4008000000000000
     \<lparr>stdout = [], rounding = ToNearest, flags = {}\<rparr> =
     (0x3FD5555555555555, \<lparr>stdout = [], rounding = ToNearest, flags = {Inexact}\<rparr>) \<and>
   divide_safe_fenv 0x3FF0000000000000 0x4008000000000000
     \<lparr>stdout = [], rounding = Upward, flags = {}\<rparr> =
     (0x3FD5555555555556, \<lparr>stdout = [], rounding = Upward, flags = {Inexact}\<rparr>) \<and>
   snd (divide_safe_fenv 0x3FF0000000000000 0x4008000000000000
     \<lparr>stdout = [], rounding = ToNearest, flags = {}\<rparr>) \<noteq>
     \<lparr>stdout = [], rounding = ToNearest, flags = {}\<rparr> \<and>
   fst (divide_safe_fenv 0x3FF0000000000000 0x4008000000000000
     \<lparr>stdout = [], rounding = ToNearest, flags = {}\<rparr>) \<noteq>
   fst (divide_safe_fenv 0x3FF0000000000000 0x4008000000000000
     \<lparr>stdout = [], rounding = Upward, flags = {}\<rparr>)"
proof -
  have nz: "\<not> feq 0x4008000000000000 0"
    by (simp add: feq_zero_iff is_zero_def biased_exp_def)
  have up: "fdiv_raises Upward 0x3FF0000000000000 0x4008000000000000 = {Inexact}"
    by (simp add: fdiv_raises_def not_signaling unpack_1 unpack_3 quotient_raises_1_3_upward)
  show ?thesis
    by (simp add: divide_safe_fenv_eq nz feq_raises_def not_signaling fdiv_in_1_3
        fdiv_raises_values up raise_def)
qed

subsection \<open>The test driver\<close>

text \<open>
  C7: \<open>main\<close> returns the exit code 0, whatever the functions it is linked with return,
  after the banner and one call of \<^verbatim>\<open>printf\<close> for each of \<open>add 5 3\<close>, \<open>multiply 4 7\<close>,
  \<open>divide_safe 10.0 2.0\<close> and \<open>divide_safe 5.0 0.0\<close>, in that order: the exit code is 0
  for any three functions; functions that return \<open>f a b\<close>, \<open>g a b\<close> and \<open>h a b\<close> and
  leave the state alone have their four results printed in that order; and with
  \<^verbatim>\<open>math_ops.c\<close> the values printed are 8, 28, \<open>5.0\<close> and \<open>0.0\<close>.
\<close>

theorem main_returns_0:
  "fst (test_main add_fn multiply_fn divide_safe_fn w) = 0 \<and>
   test_main (\<lambda>a b w. (f a b, w)) (\<lambda>a b w. (g a b, w)) (\<lambda>a b w. (h a b, w)) w =
     (0, w\<lparr>stdout := stdout w @
       [(''Testing MathLib (built with Poltergeist)\<newline>'', []),
        (''add(5, 3) = %d\<newline>'', [IntArg (f 5 3)]),
        (''multiply(4, 7) = %d\<newline>'', [IntArg (g 4 7)]),
        (''divide_safe(10.0, 2.0) = %.2f\<newline>'',
           [DoubleArg (h 0x4024000000000000 0x4000000000000000)]),
        (''divide_safe(5.0, 0.0) = %.2f (safe!)\<newline>'',
           [DoubleArg (h 0x4014000000000000 0)])]\<rparr>) \<and>
   main w = (0, w\<lparr>stdout := stdout w @
     [(''Testing MathLib (built with Poltergeist)\<newline>'', []),
      (''add(5, 3) = %d\<newline>'', [IntArg 8]),
      (''multiply(4, 7) = %d\<newline>'', [IntArg 28]),
      (''divide_safe(10.0, 2.0) = %.2f\<newline>'', [DoubleArg 0x4014000000000000]),
      (''divide_safe(5.0, 0.0) = %.2f (safe!)\<newline>'', [DoubleArg 0])]\<rparr>)"
proof -
  have code: "fst (test_main add_fn multiply_fn divide_safe_fn w) = 0"
    by (simp add: test_main_def Let_def split_beta)
  have lines:
    "test_main (\<lambda>a b w. (f a b, w)) (\<lambda>a b w. (g a b, w)) (\<lambda>a b w. (h a b, w)) w =
     (0, w\<lparr>stdout := stdout w @
       [(''Testing MathLib (built with Poltergeist)\<newline>'', []),
        (''add(5, 3) = %d\<newline>'', [IntArg (f 5 3)]),
        (''multiply(4, 7) = %d\<newline>'', [IntArg (g 4 7)]),
        (''divide_safe(10.0, 2.0) = %.2f\<newline>'',
           [DoubleArg (h 0x4024000000000000 0x4000000000000000)]),
        (''divide_safe(5.0, 0.0) = %.2f (safe!)\<newline>'',
           [DoubleArg (h 0x4014000000000000 0)])]\<rparr>)"
    by (simp add: test_main_def printf_def)
  have z: "is_zero 0" and nz: "\<not> is_zero 0x4000000000000000"
    by (simp_all add: is_zero_def biased_exp_def fraction_def)
  have "main w = (0, w\<lparr>stdout := stdout w @
     [(''Testing MathLib (built with Poltergeist)\<newline>'', []),
      (''add(5, 3) = %d\<newline>'', [IntArg 8]),
      (''multiply(4, 7) = %d\<newline>'', [IntArg 28]),
      (''divide_safe(10.0, 2.0) = %.2f\<newline>'', [DoubleArg 0x4014000000000000]),
      (''divide_safe(5.0, 0.0) = %.2f (safe!)\<newline>'', [DoubleArg 0])]\<rparr>)"
    by (simp add: main_def test_main_def add_def multiply_def divide_safe_def printf_def
        feq_zero_iff z nz fdiv_10_2)
  with code lines show ?thesis
    by simp
qed

end
